theory Spec2Isabelle
  imports Main
begin

section \<open>Strings of the runtime\<close>

text \<open>
  A string is a list of code units. The embedding covers the code units 0 to 255
  (Basic Latin and Latin-1), one \<^typ>\<open>char\<close> each, and gives the three string
  operations the sources use their ECMAScript meaning on that range:
  \<^item> \<open>\s\<close> in a regular expression and the characters removed by \<open>trim()\<close> are the same
    set: TAB, LF, VT, FF, CR, SPACE and NO-BREAK SPACE;
  \<^item> \<open>toLowerCase()\<close> maps \<open>A\<close>-\<open>Z\<close> and the Latin-1 capitals (0xC0-0xDE without the
    multiplication sign 0xD7) to the letter 32 positions later and leaves the rest.
\<close>

definition isWhiteSpace :: "char \<Rightarrow> bool" where
  "isWhiteSpace c = (of_char c \<in> {9, 10, 11, 12, 13, 32, 160 :: nat})"

definition isUpper :: "char \<Rightarrow> bool" where
  "isUpper c =
     (let n = of_char c :: nat
      in (65 \<le> n \<and> n \<le> 90) \<or> (192 \<le> n \<and> n \<le> 222 \<and> n \<noteq> 215))"

definition toLowerChar :: "char \<Rightarrow> char" where
  "toLowerChar c = (if isUpper c then char_of (of_char c + 32 :: nat) else c)"

definition toLowerCase :: "string \<Rightarrow> string" where
  "toLowerCase s = map toLowerChar s"

definition trim :: "string \<Rightarrow> string" where
  "trim s = rev (dropWhile isWhiteSpace (rev (dropWhile isWhiteSpace s)))"

text \<open>The character classes \<open>[a-z]\<close>, \<open>[A-Z]\<close> and \<open>\d\<close> of the regular expressions.\<close>

definition is_az :: "char \<Rightarrow> bool" where
  "is_az c = (97 \<le> (of_char c :: nat) \<and> (of_char c :: nat) \<le> 122)"

definition is_AZ :: "char \<Rightarrow> bool" where
  "is_AZ c = (65 \<le> (of_char c :: nat) \<and> (of_char c :: nat) \<le> 90)"

definition is_digit :: "char \<Rightarrow> bool" where
  "is_digit c = (48 \<le> (of_char c :: nat) \<and> (of_char c :: nat) \<le> 57)"

section \<open>The slug generator (event.model.ts, slugify)\<close>

text \<open>
  \<open>replace(/C+/g, d)\<close> for a character class \<open>C\<close>: every maximal run of characters of the
  class becomes the one character \<open>d\<close>. The flag says whether the previous character
  belonged to a run that has already been replaced.
\<close>

fun replace_runs_from :: "bool \<Rightarrow> (char \<Rightarrow> bool) \<Rightarrow> char \<Rightarrow> string \<Rightarrow> string" where
  "replace_runs_from in_run C d [] = []"
| "replace_runs_from in_run C d (c # cs) =
     (if C c then (if in_run then replace_runs_from True C d cs
                   else d # replace_runs_from True C d cs)
      else c # replace_runs_from False C d cs)"

definition replace_runs :: "(char \<Rightarrow> bool) \<Rightarrow> char \<Rightarrow> string \<Rightarrow> string" where
  "replace_runs C d s = replace_runs_from False C d s"

text \<open>\<open>[a-z0-9\s-]\<close>, the class whose complement the first replacement deletes.\<close>

definition slug_source_char :: "char \<Rightarrow> bool" where
  "slug_source_char c = (is_az c \<or> is_digit c \<or> isWhiteSpace c \<or> c = CHR ''-'')"

definition remove_invalid_chars :: "string \<Rightarrow> string" where
  "remove_invalid_chars s = filter slug_source_char s"

definition spaces_to_dashes :: "string \<Rightarrow> string" where
  "spaces_to_dashes s = replace_runs isWhiteSpace (CHR ''-'') s"

definition collapse_dashes :: "string \<Rightarrow> string" where
  "collapse_dashes s = replace_runs (\<lambda>c. c = CHR ''-'') (CHR ''-'') s"

text \<open>
  \<open>replace(/^-|-$/g, '')\<close>: a dash at the very start is deleted, and then a dash at the very
  end of what is left (one dash alone is matched by the first alternative only).
\<close>

definition strip_leading_dash :: "string \<Rightarrow> string" where
  "strip_leading_dash s = (case s of [] \<Rightarrow> [] | c # cs \<Rightarrow> if c = CHR ''-'' then cs else s)"

definition strip_trailing_dash :: "string \<Rightarrow> string" where
  "strip_trailing_dash s = (if s \<noteq> [] \<and> last s = CHR ''-'' then butlast s else s)"

definition trim_dashes :: "string \<Rightarrow> string" where
  "trim_dashes s = strip_trailing_dash (strip_leading_dash s)"

definition slugify :: "string \<Rightarrow> string" where
  "slugify v =
     trim_dashes (collapse_dashes (spaces_to_dashes (remove_invalid_chars (trim (toLowerCase v)))))"

section \<open>Errors\<close>

text \<open>
  The sources throw plain \<open>Error\<close> objects told apart by their message, the schema library
  throws its validation error, the database its duplicate-key error and the request object
  a \<open>TypeError\<close>. The constructor says which class of the error taxonomy a throw site
  belongs to (a rejected field: \<open>ValidationError\<close>; a broken unique index:
  \<open>ConflictError\<close>; a dangling reference: \<open>ReferenceError\<close>; an unreachable database:
  \<open>ConnectionError\<close>); the string is the message of the exception.
\<close>

datatype error =
    ValidationError string
  | ConflictError string
  | ReferenceError string
  | ConnectionError string
  | TypeError string

fun message :: "error \<Rightarrow> string" where
  "message (ValidationError m) = m"
| "message (ConflictError m) = m"
| "message (ReferenceError m) = m"
| "message (ConnectionError m) = m"
| "message (TypeError m) = m"

text \<open>Sequencing of steps that may throw: the first exception ends the run.\<close>

definition and_then :: "error + 'a \<Rightarrow> ('a \<Rightarrow> error + 'b) \<Rightarrow> error + 'b" where
  "and_then m f = (case m of Inl e \<Rightarrow> Inl e | Inr x \<Rightarrow> f x)"

section \<open>The Event model (event.model.ts)\<close>

text \<open>
  An element of an array path of a document: \<open>Some s\<close> is the string \<open>s\<close>, \<open>None\<close> is
  \<open>null\<close>, the one value whose \<open>typeof\<close> is not \<open>'string'\<close> that the casting of a
  \<open>[String]\<close> path leaves in an array (see \<open>cast_items\<close> below).
\<close>

type_synonym array_item = "string option"

text \<open>
  A document after its values have been cast to the types of \<open>eventSchema\<close>: every path,
  \<open>None\<close> where the path holds no string (respectively no array).
\<close>

record EventDoc =
  doc_title :: "string option"
  doc_slug :: "string option"
  doc_description :: "string option"
  doc_overview :: "string option"
  doc_image :: "string option"
  doc_venue :: "string option"
  doc_location :: "string option"
  doc_date :: "string option"
  doc_time :: "string option"
  doc_mode :: "string option"
  doc_audience :: "string option"
  doc_agenda :: "array_item list option"
  doc_organizer :: "string option"
  doc_tags :: "array_item list option"

text \<open>\<open>EventAttrs\<close>: the fields of a document that went through the pre-save hook.\<close>

record EventAttrs =
  title :: string
  slug :: string
  description :: string
  overview :: string
  image_url :: string
  venue :: string
  location :: string
  date :: string
  time :: string
  mode :: string
  audience :: string
  agenda :: "array_item list"
  organizer :: string
  tags :: "array_item list"

text \<open>\<open>EventDocument\<close>: a stored event, with the identifier the store gave it.\<close>

record EventDocument = EventAttrs +
  event_id :: nat

type_synonym EventStore = "EventDocument list"

subsection \<open>The schema: setters and validators\<close>

text \<open>
  The paths declared with \<open>trim: true\<close> are trimmed when they are set; \<open>slug\<close>, \<open>date\<close> and
  \<open>time\<close> are declared without it.
\<close>

definition eventSchema_setters :: "EventDoc \<Rightarrow> EventDoc" where
  "eventSchema_setters d = d\<lparr>
     doc_title := map_option trim (doc_title d),
     doc_description := map_option trim (doc_description d),
     doc_overview := map_option trim (doc_overview d),
     doc_image := map_option trim (doc_image d),
     doc_venue := map_option trim (doc_venue d),
     doc_location := map_option trim (doc_location d),
     doc_mode := map_option trim (doc_mode d),
     doc_audience := map_option trim (doc_audience d),
     doc_organizer := map_option trim (doc_organizer d)\<rparr>"

text \<open>\<open>required: true\<close> on a string path: the path holds a string that is not empty.\<close>

definition required_string :: "string option \<Rightarrow> bool" where
  "required_string v = (case v of None \<Rightarrow> False | Some s \<Rightarrow> s \<noteq> [])"

text \<open>\<open>required: true\<close> on an array path: the path holds an array.\<close>

definition required_array :: "array_item list option \<Rightarrow> bool" where
  "required_array v = (v \<noteq> None)"

text \<open>The validator of \<open>agenda\<close> and \<open>tags\<close>: \<open>Array.isArray(value) && value.length > 0\<close>.\<close>

definition array_validator :: "array_item list option \<Rightarrow> bool" where
  "array_validator v = (case v of None \<Rightarrow> False | Some l \<Rightarrow> 0 < length l)"

definition eventSchema_valid :: "EventDoc \<Rightarrow> bool" where
  "eventSchema_valid d \<longleftrightarrow>
     required_string (doc_title d) \<and> required_string (doc_slug d) \<and>
     required_string (doc_description d) \<and> required_string (doc_overview d) \<and>
     required_string (doc_image d) \<and> required_string (doc_venue d) \<and>
     required_string (doc_location d) \<and> required_string (doc_date d) \<and>
     required_string (doc_time d) \<and> required_string (doc_mode d) \<and>
     required_string (doc_audience d) \<and>
     required_array (doc_agenda d) \<and> array_validator (doc_agenda d) \<and>
     required_string (doc_organizer d) \<and>
     required_array (doc_tags d) \<and> array_validator (doc_tags d)"

subsection \<open>The pre-save hook\<close>

text \<open>
  The date object of the runtime is a parameter: \<open>Date_parse s\<close> is the time value of
  \<open>new Date(s)\<close>, \<open>None\<close> when that is \<open>NaN\<close>, and \<open>toISOString t\<close> the ISO 8601 text of
  the time value \<open>t\<close>.
\<close>

record js_date =
  Date_parse :: "string \<Rightarrow> int option"
  toISOString :: "int \<Rightarrow> string"

definition quoted :: "string \<Rightarrow> string" where
  "quoted s = CHR 0x22 # s @ [CHR 0x22]"

text \<open>
  One round of the loop over \<open>requiredStringFields\<close>: the field has to be a string that is
  not empty once trimmed, and is replaced by its trimmed value.
\<close>

definition required_field :: "string \<Rightarrow> string option \<Rightarrow> error + string" where
  "required_field field v =
     (case v of
        None \<Rightarrow> Inl (ValidationError
          (''Field '' @ quoted field @ '' is required and must be a non-empty string.''))
      | Some s \<Rightarrow>
          if length (trim s) = 0
          then Inl (ValidationError
            (''Field '' @ quoted field @ '' is required and must be a non-empty string.''))
          else Inr (trim s))"

text \<open>
  \<open>ensureNonEmptyStringArray\<close>: throws unless the value is an array, has an element, and has
  only elements that are strings and not empty once trimmed. The array is left as it is.
\<close>

definition bad_item :: "array_item \<Rightarrow> bool" where
  "bad_item item = (case item of None \<Rightarrow> True | Some s \<Rightarrow> length (trim s) = 0)"

definition ensureNonEmptyStringArray ::
  "array_item list option \<Rightarrow> string \<Rightarrow> error + array_item list" where
  "ensureNonEmptyStringArray list fieldName =
     (case list of
        None \<Rightarrow> Inl (ValidationError
          (''Field '' @ quoted fieldName @ '' must be a non-empty array of non-empty strings.''))
      | Some l \<Rightarrow>
          if length l = 0 \<or> list_ex bad_item l
          then Inl (ValidationError
            (''Field '' @ quoted fieldName @ '' must be a non-empty array of non-empty strings.''))
          else Inr l)"

text \<open>The date step: \<open>new Date(event.date)\<close>, the \<open>NaN\<close> test, \<open>toISOString()\<close>.\<close>

definition normalize_date :: "js_date \<Rightarrow> string \<Rightarrow> error + string" where
  "normalize_date D d =
     (case Date_parse D d of
        None \<Rightarrow> Inl (ValidationError ''Invalid date format. Expected a valid date string.'')
      | Some parsedDate \<Rightarrow> Inr (toISOString D parsedDate))"

text \<open>\<open>timePattern\<close>, \<open>/^([01]\d|2[0-3]):([0-5]\d)$/\<close>.\<close>

definition timePattern :: "string \<Rightarrow> bool" where
  "timePattern s =
     (case s of
        [h1, h2, c, m1, m2] \<Rightarrow>
          (((h1 = CHR ''0'' \<or> h1 = CHR ''1'') \<and> is_digit h2) \<or>
           (h1 = CHR ''2'' \<and> 48 \<le> (of_char h2 :: nat) \<and> (of_char h2 :: nat) \<le> 51)) \<and>
          c = CHR '':'' \<and>
          48 \<le> (of_char m1 :: nat) \<and> (of_char m1 :: nat) \<le> 53 \<and> is_digit m2
      | _ \<Rightarrow> False)"

definition normalize_time :: "string \<Rightarrow> error + string" where
  "normalize_time t =
     (let normalizedTime = trim t
      in if \<not> timePattern normalizedTime
         then Inl (ValidationError ''Invalid time format. Expected HH:MM in 24-hour format.'')
         else Inr normalizedTime)"

text \<open>
  The slug step: \<open>if (event.isModified('title') || !event.slug)\<close>; a slug that is absent or
  empty is falsy.
\<close>

definition next_slug :: "bool \<Rightarrow> string option \<Rightarrow> string \<Rightarrow> string" where
  "next_slug title_modified old t =
     (case old of
        None \<Rightarrow> slugify t
      | Some s \<Rightarrow> if title_modified \<or> s = [] then slugify t else s)"

text \<open>
  The hook, in the order of the source: the eleven required fields, the two arrays, the
  date, the time, the slug. \<open>title_modified\<close> is \<open>event.isModified('title')\<close>.
\<close>

definition event_preSave :: "js_date \<Rightarrow> bool \<Rightarrow> EventDoc \<Rightarrow> error + EventAttrs" where
  "event_preSave D title_modified event =
     and_then (required_field ''title'' (doc_title event)) (\<lambda>title'.
     and_then (required_field ''description'' (doc_description event)) (\<lambda>description'.
     and_then (required_field ''overview'' (doc_overview event)) (\<lambda>overview'.
     and_then (required_field ''image'' (doc_image event)) (\<lambda>image'.
     and_then (required_field ''venue'' (doc_venue event)) (\<lambda>venue'.
     and_then (required_field ''location'' (doc_location event)) (\<lambda>location'.
     and_then (required_field ''date'' (doc_date event)) (\<lambda>date'.
     and_then (required_field ''time'' (doc_time event)) (\<lambda>time'.
     and_then (required_field ''mode'' (doc_mode event)) (\<lambda>mode'.
     and_then (required_field ''audience'' (doc_audience event)) (\<lambda>audience'.
     and_then (required_field ''organizer'' (doc_organizer event)) (\<lambda>organizer'.
     and_then (ensureNonEmptyStringArray (doc_agenda event) ''agenda'') (\<lambda>agenda'.
     and_then (ensureNonEmptyStringArray (doc_tags event) ''tags'') (\<lambda>tags'.
     and_then (normalize_date D date') (\<lambda>date''.
     and_then (normalize_time time') (\<lambda>time''.
     Inr \<lparr>title = title',
          slug = next_slug title_modified (doc_slug event) title',
          description = description', overview = overview', image_url = image',
          venue = venue', location = location', date = date'', time = time'',
          mode = mode', audience = audience', agenda = agenda',
          organizer = organizer', tags = tags'\<rparr>)))))))))))))))"

subsection \<open>Saving a new event\<close>

text \<open>
  The unique index on \<open>slug\<close>: an insert whose slug is already stored is refused by the
  database with its duplicate-key error. The new document gets an identifier no stored
  document has.
\<close>

definition fresh_id :: "EventStore \<Rightarrow> nat" where
  "fresh_id store = Suc (fold max (map event_id store) 0)"

definition insert_event :: "EventStore \<Rightarrow> EventAttrs \<Rightarrow> error + EventStore \<times> EventDocument" where
  "insert_event store a =
     (if list_ex (\<lambda>e. slug e = slug a) store
      then Inl (ConflictError ''E11000 duplicate key error'')
      else (let created = EventAttrs.extend a \<lparr>event_id = fresh_id store\<rparr>
            in Inr (store @ [created], created)))"

text \<open>
  \<open>Event.create\<close> for values that have been cast: the setters run when the document is
  built, the library validates the document against the schema before it runs the hooks
  registered with \<open>pre('save')\<close>, and the insert comes last. Every path set on a new
  document counts as modified.
\<close>

definition Event_create ::
  "js_date \<Rightarrow> EventStore \<Rightarrow> EventDoc \<Rightarrow> error + EventStore \<times> EventDocument" where
  "Event_create D store doc =
     (let event = eventSchema_setters doc
      in if \<not> eventSchema_valid event then Inl (ValidationError ''Event validation failed'')
         else and_then (event_preSave D True event) (insert_event store))"

subsection \<open>The casting of the values given to \<open>Event.create\<close>\<close>











subsection \<open>Queries\<close>

definition findOne_slug :: "EventStore \<Rightarrow> string option \<Rightarrow> EventDocument option" where
  "findOne_slug store q = find (\<lambda>e. Some (slug e) = q) store"

definition Event_exists :: "EventStore \<Rightarrow> nat \<Rightarrow> bool" where
  "Event_exists store i = list_ex (\<lambda>e. event_id e = i) store"

section \<open>The Booking model (booking.model.ts)\<close>

record BookingDoc =
  doc_eventId :: "nat option"
  doc_email :: "string option"

record BookingAttrs =
  eventId :: nat
  email :: string

record BookingDocument = BookingAttrs +
  booking_id :: nat

type_synonym BookingStore = "BookingDocument list"

subsection \<open>The two patterns for an email\<close>

text \<open>The part of a string before the first \<open>c\<close> and the part after it.\<close>

definition split_first :: "char \<Rightarrow> string \<Rightarrow> (string \<times> string) option" where
  "split_first c s =
     (case dropWhile (\<lambda>x. x \<noteq> c) s of
        [] \<Rightarrow> None
      | _ # r \<Rightarrow> Some (takeWhile (\<lambda>x. x \<noteq> c) s, r))"

text \<open>The part of a string before the last \<open>c\<close> and the part after it.\<close>

definition split_last :: "char \<Rightarrow> string \<Rightarrow> (string \<times> string) option" where
  "split_last c s =
     (case split_first c (rev s) of
        None \<Rightarrow> None
      | Some (t, d) \<Rightarrow> Some (rev d, rev t))"

text \<open>
  The validator of the \<open>email\<close> path,
  \<open>/^[a-zA-Z0-9._%+-]+@[a-zA-Z0-9.-]+\.[a-zA-Z]{2,}$/\<close>. No character of the first class
  is \<open>@\<close> and none of the last is a dot, so a match splits the string at its first \<open>@\<close>
  and the rest at its last dot.
\<close>

definition local_char :: "char \<Rightarrow> bool" where
  "local_char c = (is_az c \<or> is_AZ c \<or> is_digit c \<or> c \<in> set ''._%+-'')"

definition domain_char :: "char \<Rightarrow> bool" where
  "domain_char c = (is_az c \<or> is_AZ c \<or> is_digit c \<or> c \<in> set ''.-'')"

definition letter_char :: "char \<Rightarrow> bool" where
  "letter_char c = (is_az c \<or> is_AZ c)"

definition validator_emailRegex :: "string \<Rightarrow> bool" where
  "validator_emailRegex s =
     (case split_first (CHR ''@'') s of
        None \<Rightarrow> False
      | Some (l, r) \<Rightarrow>
          l \<noteq> [] \<and> list_all local_char l \<and>
          (case split_last (CHR ''.'') r of
             None \<Rightarrow> False
           | Some (d, t) \<Rightarrow>
               d \<noteq> [] \<and> list_all domain_char d \<and> 2 \<le> length t \<and> list_all letter_char t))"

text \<open>
  The module's \<open>emailRegex\<close>, \<open>/^[^\s@]+@[^\s@]+\.[^\s@]+$/\<close>. The string splits at
  its only \<open>@\<close>; what follows needs a dot that is neither its first nor its last character.
\<close>

definition plain_char :: "char \<Rightarrow> bool" where
  "plain_char c = (\<not> isWhiteSpace c \<and> c \<noteq> CHR ''@'')"

definition emailRegex :: "string \<Rightarrow> bool" where
  "emailRegex s =
     (case split_first (CHR ''@'') s of
        None \<Rightarrow> False
      | Some (l, r) \<Rightarrow>
          l \<noteq> [] \<and> list_all plain_char l \<and> list_all plain_char r \<and>
          CHR ''.'' \<in> set (butlast (tl r)))"

subsection \<open>The schema\<close>

text \<open>
  The \<open>email\<close> path is declared with \<open>trim: true\<close> and \<open>lowercase: true\<close>; the library
  applies the setters of a path last declared first.
\<close>

definition bookingSchema_setters :: "BookingDoc \<Rightarrow> BookingDoc" where
  "bookingSchema_setters d = d\<lparr>doc_email := map_option (\<lambda>e. trim (toLowerCase e)) (doc_email d)\<rparr>"

text \<open>
  Validation against the schema: both paths are required, and the email has to pass the
  validator of its path.
\<close>

definition bookingSchema_validate :: "BookingDoc \<Rightarrow> error + BookingAttrs" where
  "bookingSchema_validate d =
     (case doc_eventId d of
        None \<Rightarrow> Inl (ValidationError ''Booking validation failed: eventId: Event ID is required '')
      | Some i \<Rightarrow>
          (case doc_email d of
             None \<Rightarrow> Inl (ValidationError ''Booking validation failed: email: Email is required '')
           | Some e \<Rightarrow>
               if e = [] then
                 Inl (ValidationError ''Booking validation failed: email: Email is required '')
               else if \<not> validator_emailRegex e then
                 Inl (ValidationError
                   (''Booking validation failed: email: '' @ e @ '' is not a valid email address!''))
               else Inr \<lparr>eventId = i, email = e\<rparr>))"

subsection \<open>The pre-save hook\<close>

text \<open>
  What a create does to the two stores, in the order in which it does it: a query to the
  Event store whether an event has the id, and the insert of a booking.
\<close>

datatype store_action =
    Event_exists_query nat
  | Booking_insert BookingDocument

text \<open>The hook: its outcome, and the queries it sent.\<close>

definition booking_preSave ::
  "EventStore \<Rightarrow> BookingAttrs \<Rightarrow> (error + BookingAttrs) \<times> store_action list" where
  "booking_preSave events booking =
     (let normalizedEmail = toLowerCase (trim (email booking))
      in if \<not> emailRegex normalizedEmail
         then (Inl (ValidationError ''Invalid email format.''), [])
         else (let eventExists = Event_exists events (eventId booking)
               in (if \<not> eventExists
                   then Inl (ReferenceError
                          ''Cannot create booking: referenced event does not exist.'')
                   else Inr (booking\<lparr>email := normalizedEmail\<rparr>),
                   [Event_exists_query (eventId booking)])))"

definition insert_booking :: "BookingStore \<Rightarrow> BookingAttrs \<Rightarrow> BookingStore \<times> BookingDocument" where
  "insert_booking store b =
     (let created = BookingAttrs.extend b
                      \<lparr>booking_id = Suc (fold max (map booking_id store) 0)\<rparr>
      in (store @ [created], created))"

text \<open>
  \<open>Booking.create\<close>: setters, schema validation, the hook, the insert. The run gives the
  outcome together with the accesses to the stores; \<open>Booking_create\<close> is the outcome and
  \<open>Booking_create_actions\<close> the accesses.
\<close>

definition Booking_create_run ::
  "EventStore \<Rightarrow> BookingStore \<Rightarrow> BookingDoc \<Rightarrow>
   (error + BookingStore \<times> BookingDocument) \<times> store_action list" where
  "Booking_create_run events store doc =
     (case bookingSchema_validate (bookingSchema_setters doc) of
        Inl e \<Rightarrow> (Inl e, [])
      | Inr booking \<Rightarrow>
          (case booking_preSave events booking of
             (Inl e, queries) \<Rightarrow> (Inl e, queries)
           | (Inr saved, queries) \<Rightarrow>
               (let inserted = insert_booking store saved
                in (Inr inserted, queries @ [Booking_insert (snd inserted)]))))"

definition Booking_create ::
  "EventStore \<Rightarrow> BookingStore \<Rightarrow> BookingDoc \<Rightarrow> error + BookingStore \<times> BookingDocument" where
  "Booking_create events store doc = fst (Booking_create_run events store doc)"

definition Booking_create_actions ::
  "EventStore \<Rightarrow> BookingStore \<Rightarrow> BookingDoc \<Rightarrow> store_action list" where
  "Booking_create_actions events store doc = snd (Booking_create_run events store doc)"

section \<open>The route handlers\<close>

datatype json_body =
    MessageEvent string EventDocument
  | Message string
  | MessageError string string
  | ErrorBody string

record response =
  status :: nat
  body :: json_body

text \<open>
  For the handler of \<open>POST\<close>, the outcome of \<open>connectToDatabase()\<close>: the exception it
  rejects with, or access to the stored events.
\<close>

type_synonym connection = "error + EventStore"

subsection \<open>\<open>POST /api/events\<close> (app/api/events/route.ts)\<close>

text \<open>
  A request: its body as the entries of a form with text fields (\<open>Inr\<close>), or, when the
  body cannot be read as form data, the message of the \<open>TypeError\<close> with which the runtime
  makes \<open>req.formData()\<close> reject (\<open>Inl\<close>).
\<close>

record request =
  form_body :: "string + (string \<times> string) list"

definition formData :: "request \<Rightarrow> error + (string \<times> string) list" where
  "formData req =
     (case form_body req of
        Inl msg \<Rightarrow> Inl (TypeError msg)
      | Inr entries \<Rightarrow> Inr entries)"

text \<open>
  \<open>Object.fromEntries(formData.entries())\<close>: the object of the entries, a later entry
  replacing an earlier one of the same name. It does not throw.
\<close>

definition Object_fromEntries :: "(string \<times> string) list \<Rightarrow> error + (string \<rightharpoonup> string)" where
  "Object_fromEntries entries = Inr (map_of (rev entries))"

text \<open>
  The document the model builds from the object: a path takes the property of its name, an
  array path wraps a single value and is the empty array when the property is absent.
\<close>

definition cast_array :: "string option \<Rightarrow> array_item list option" where
  "cast_array v = (case v of None \<Rightarrow> Some [] | Some s \<Rightarrow> Some [Some s])"

definition cast_event :: "(string \<rightharpoonup> string) \<Rightarrow> EventDoc" where
  "cast_event obj =
     \<lparr>doc_title = obj ''title'', doc_slug = obj ''slug'',
      doc_description = obj ''description'', doc_overview = obj ''overview'',
      doc_image = obj ''image'', doc_venue = obj ''venue'', doc_location = obj ''location'',
      doc_date = obj ''date'', doc_time = obj ''time'', doc_mode = obj ''mode'',
      doc_audience = obj ''audience'', doc_agenda = cast_array (obj ''agenda''),
      doc_organizer = obj ''organizer'', doc_tags = cast_array (obj ''tags'')\<rparr>"

definition creation_failed :: "error \<Rightarrow> response" where
  "creation_failed e =
     \<lparr>status = 500, body = MessageError ''Event Creation Failed'' (message e)\<rparr>"

definition POST :: "js_date \<Rightarrow> connection \<Rightarrow> request \<Rightarrow> response \<times> EventStore option" where
  "POST D conn req =
     (case conn of
        Inl e \<Rightarrow> (creation_failed e, None)
      | Inr store \<Rightarrow>
          (case formData req of
             Inl e \<Rightarrow> (creation_failed e, Some store)
           | Inr entries \<Rightarrow>
               (case Object_fromEntries entries of
                  Inl e \<Rightarrow> (\<lparr>status = 400, body = Message ''Invalid Form Data''\<rparr>, Some store)
                | Inr event \<Rightarrow>
                    (case Event_create D store (cast_event event) of
                       Inl e \<Rightarrow> (creation_failed e, Some store)
                     | Inr (store', createdEvent) \<Rightarrow>
                         (\<lparr>status = 201,
                           body = MessageEvent ''Event created successfully'' createdEvent\<rparr>,
                          Some store')))))"

subsection \<open>\<open>GET /api/events/[slug]\<close>\<close>

definition jsonError :: "string \<Rightarrow> nat \<Rightarrow> response" where
  "jsonError msg st = \<lparr>status = st, body = ErrorBody msg\<rparr>"

text \<open>\<open>slugPattern\<close>, \<open>/^[a-z0-9-]+$/\<close>.\<close>

definition slug_char :: "char \<Rightarrow> bool" where
  "slug_char c = (is_az c \<or> is_digit c \<or> c = CHR ''-'')"

definition slugPattern :: "string \<Rightarrow> bool" where
  "slugPattern s = (s \<noteq> [] \<and> list_all slug_char s)"

definition normalizeAndValidateSlug :: "string option \<Rightarrow> string option" where
  "normalizeAndValidateSlug rawSlug =
     (case rawSlug of
        None \<Rightarrow> None
      | Some raw \<Rightarrow>
          (let slug = toLowerCase (trim raw)
           in if slug = [] then None
              else if \<not> slugPattern slug then None
              else Some slug))"

text \<open>
  The database as the handler meets it: \<open>connectToDatabase()\<close> rejects with
  \<open>connect_failure\<close> when there is one, a query on the Event model rejects with
  \<open>find_failure\<close> when there is one, and is answered from the stored events otherwise.
  A query for the slug \<open>null\<close> asks for a document without a slug; every stored event
  went through the schema and the hook and has one.
\<close>

record database =
  connect_failure :: "error option"
  find_failure :: "error option"
  collection :: EventStore

definition connectToDatabase :: "database \<Rightarrow> error + unit" where
  "connectToDatabase db = (case connect_failure db of Some e \<Rightarrow> Inl e | None \<Rightarrow> Inr ())"

definition Event_findOne :: "database \<Rightarrow> string option \<Rightarrow> error + EventDocument option" where
  "Event_findOne db q =
     (case find_failure db of Some e \<Rightarrow> Inl e | None \<Rightarrow> Inr (findOne_slug (collection db) q))"

text \<open>
  The handler. \<open>params\<close> is the outcome of \<open>await params\<close>: an exception, or the route
  parameter \<open>slug\<close>, \<open>None\<close> when it is missing. Every exception inside the \<open>try\<close> ends
  in the one answer of the \<open>catch\<close>.
\<close>

definition GET :: "database \<Rightarrow> error + string option \<Rightarrow> response" where
  "GET db params =
     (case connectToDatabase db of
        Inl e \<Rightarrow> jsonError ''Failed to fetch event. Please try again later.'' 500
      | Inr _ \<Rightarrow>
          (case params of
             Inl e \<Rightarrow> jsonError ''Failed to fetch event. Please try again later.'' 500
           | Inr None \<Rightarrow> jsonError ''Invalid or missing slug parameter'' 404
           | Inr (Some raw) \<Rightarrow>
               if raw = [] \<or> trim raw = []
               then jsonError ''Invalid or missing slug parameter'' 404
               else (let sanitizedSlug = normalizeAndValidateSlug (Some raw)
                     in case Event_findOne db sanitizedSlug of
                          Inl e \<Rightarrow>
                            jsonError ''Failed to fetch event. Please try again later.'' 500
                        | Inr None \<Rightarrow> jsonError (''Event with '' @ raw @ '' not found'') 404
                        | Inr (Some event) \<Rightarrow>
                            \<lparr>status = 200,
                             body = MessageEvent ''API fetched successfully'' event\<rparr>)))"

section \<open>Notions used in the statements\<close>

text \<open>\<open>[a-z0-9]\<close>: the characters of a slug that are not dashes.\<close>

definition is_alnum :: "char \<Rightarrow> bool" where
  "is_alnum c = (is_az c \<or> is_digit c)"

text \<open>No two dashes in a row, and no dash at either end.\<close>

fun dashes_single :: "string \<Rightarrow> bool" where
  "dashes_single (a # b # cs) = (\<not> (a = CHR ''-'' \<and> b = CHR ''-'') \<and> dashes_single (b # cs))"
| "dashes_single cs = True"

definition no_edge_dash :: "string \<Rightarrow> bool" where
  "no_edge_dash s = (s = [] \<or> (hd s \<noteq> CHR ''-'' \<and> last s \<noteq> CHR ''-''))"

text \<open>
  A text of words separated by runs of white space: \<open>spaced [(w1, g1), (w2, g2)] w3\<close> is
  \<open>w1 g1 w2 g2 w3\<close>, and \<open>dashed\<close> is the same text with one dash for every gap.
\<close>

definition is_word :: "string \<Rightarrow> bool" where
  "is_word w = (w \<noteq> [] \<and> list_all is_alnum w)"

definition is_gap :: "string \<Rightarrow> bool" where
  "is_gap g = (g \<noteq> [] \<and> list_all isWhiteSpace g)"

fun spaced :: "(string \<times> string) list \<Rightarrow> string \<Rightarrow> string" where
  "spaced [] lw = lw"
| "spaced ((w, g) # wgs) lw = w @ g @ spaced wgs lw"

fun dashed :: "(string \<times> string) list \<Rightarrow> string \<Rightarrow> string" where
  "dashed [] lw = lw"
| "dashed ((w, g) # wgs) lw = w @ CHR ''-'' # dashed wgs lw"




text \<open>The schema check and the hook both pass.\<close>

definition event_accepted :: "js_date \<Rightarrow> EventDoc \<Rightarrow> bool" where
  "event_accepted D doc \<longleftrightarrow>
     eventSchema_valid (eventSchema_setters doc) \<and>
     (case event_preSave D True (eventSchema_setters doc) of Inl e \<Rightarrow> False | Inr a \<Rightarrow> True)"

text \<open>The normal form of an email: trimmed, then lower-cased.\<close>

definition normalized_email :: "string \<Rightarrow> string" where
  "normalized_email e = toLowerCase (trim e)"

subsection \<open>Sample data for the examples\<close>

text \<open>A date object that reads one date, 20 November 2025, as the runtime does.\<close>

definition sample_date :: js_date where
  "sample_date =
     \<lparr>Date_parse = (\<lambda>s. if s = ''2025-11-20'' then Some 1763596800000 else None),
      toISOString = (\<lambda>t. if t = 1763596800000 then ''2025-11-20T00:00:00.000Z'' else [])\<rparr>"

definition sample_doc :: EventDoc where
  "sample_doc =
     \<lparr>doc_title = Some ''Cloud Next 2026'', doc_slug = Some ''placeholder'',
      doc_description = Some ''A conference'', doc_overview = Some ''Talks and workshops'',
      doc_image = Some ''/images/event1.png'', doc_venue = Some ''Hall A'',
      doc_location = Some ''San Francisco'', doc_date = Some ''2025-11-20'',
      doc_time = Some ''09:30'', doc_mode = Some ''hybrid'', doc_audience = Some ''Developers'',
      doc_agenda = Some [Some ''Keynote''], doc_organizer = Some ''Organizer'',
      doc_tags = Some [Some ''cloud'']\<rparr>"


definition sample_event :: EventDocument where
  "sample_event =
     \<lparr>title = ''Cloud Next 2026'', slug = ''cloud-next-2026'',
      description = ''A conference'', overview = ''Talks and workshops'',
      image_url = ''/images/event1.png'', venue = ''Hall A'',
      location = ''San Francisco'', date = ''2025-11-20T00:00:00.000Z'',
      time = ''09:30'', mode = ''hybrid'', audience = ''Developers'',
      agenda = [Some ''Keynote''], organizer = ''Organizer'',
      tags = [Some ''cloud''], event_id = 1\<rparr>"

definition sample_form :: "(string \<times> string) list" where
  "sample_form =
     [(''title'', ''Cloud Next 2026''), (''slug'', ''placeholder''),
      (''description'', ''A conference''), (''overview'', ''Talks and workshops''),
      (''image'', ''/images/event1.png''), (''venue'', ''Hall A''),
      (''location'', ''San Francisco''), (''date'', ''2025-11-20''), (''time'', ''09:30''),
      (''mode'', ''hybrid''), (''audience'', ''Developers''), (''agenda'', ''Keynote''),
      (''organizer'', ''Organizer''), (''tags'', ''cloud'')]"

definition sample_booking :: BookingDocument where
  "sample_booking = \<lparr>eventId = 1, email = ''a@b.com'', booking_id = 1\<rparr>"

definition sample_database :: database where
  "sample_database =
     \<lparr>connect_failure = None, find_failure = None, collection = [sample_event]\<rparr>"

section \<open>Properties of the string operations and of the steps\<close>

lemma and_then_Inr: "and_then m f = Inr y \<longleftrightarrow> (\<exists>x. m = Inr x \<and> f x = Inr y)"
  by (cases m) (auto simp: and_then_def)

lemma and_then_Inl: "and_then m f = Inl e \<longleftrightarrow> m = Inl e \<or> (\<exists>x. m = Inr x \<and> f x = Inl e)"
  by (cases m) (auto simp: and_then_def)

lemma trim_decomp: "\<exists>c. dropWhile isWhiteSpace s = trim s @ c"
proof -
  let ?a = "dropWhile isWhiteSpace s"
  have "rev (takeWhile isWhiteSpace (rev ?a) @ dropWhile isWhiteSpace (rev ?a)) = ?a"
    by (simp only: takeWhile_dropWhile_id rev_rev_ident)
  then have "rev (dropWhile isWhiteSpace (rev ?a)) @ rev (takeWhile isWhiteSpace (rev ?a)) = ?a"
    by (simp only: rev_append)
  then have "?a = trim s @ rev (takeWhile isWhiteSpace (rev ?a))"
    by (simp only: trim_def)
  then show ?thesis by blast
qed

lemma trim_edges: "trim s = [] \<or> (\<not> isWhiteSpace (hd (trim s)) \<and> \<not> isWhiteSpace (last (trim s)))"
proof (cases "trim s = []")
  case True
  then show ?thesis by simp
next
  case False
  obtain c where c: "dropWhile isWhiteSpace s = trim s @ c" using trim_decomp by blast
  with False have "hd (trim s) = hd (dropWhile isWhiteSpace s)" by simp
  moreover from c False have "dropWhile isWhiteSpace s \<noteq> []" by simp
  ultimately have h: "\<not> isWhiteSpace (hd (trim s))" by (simp add: hd_dropWhile)
  from False have "dropWhile isWhiteSpace (rev (dropWhile isWhiteSpace s)) \<noteq> []"
    by (simp add: trim_def)
  then have "\<not> isWhiteSpace (hd (dropWhile isWhiteSpace (rev (dropWhile isWhiteSpace s))))"
    by (rule hd_dropWhile)
  moreover have "last (trim s) = hd (dropWhile isWhiteSpace (rev (dropWhile isWhiteSpace s)))"
    using False by (simp add: trim_def last_rev)
  ultimately show ?thesis using h by simp
qed

lemma trim_id: "s = [] \<or> (\<not> isWhiteSpace (hd s) \<and> \<not> isWhiteSpace (last s)) \<Longrightarrow> trim s = s"
proof (cases "s = []")
  case True
  then show ?thesis by (simp add: trim_def)
next
  case False
  assume "s = [] \<or> (\<not> isWhiteSpace (hd s) \<and> \<not> isWhiteSpace (last s))"
  with False have h: "\<not> isWhiteSpace (hd s)" and l: "\<not> isWhiteSpace (last s)" by auto
  from h False have 1: "dropWhile isWhiteSpace s = s"
    by (simp add: dropWhile_eq_self_iff)
  from l False have 2: "dropWhile isWhiteSpace (rev s) = rev s"
    by (simp add: dropWhile_eq_self_iff hd_rev)
  show ?thesis by (simp add: trim_def 1 2)
qed

lemma trim_trim: "trim (trim s) = trim s"
  using trim_edges[of s] by (rule trim_id)

lemma required_field_Inr:
  "required_field n v = Inr s \<longleftrightarrow> (\<exists>r. v = Some r \<and> trim r \<noteq> [] \<and> s = trim r)"
  by (auto simp: required_field_def split: option.splits)

lemma required_field_Inl: "required_field n v = Inl e \<Longrightarrow> \<exists>m. e = ValidationError m"
  by (auto simp: required_field_def split: option.splits if_splits)

lemma ensure_Inr:
  "ensureNonEmptyStringArray l n = Inr xs \<longleftrightarrow> l = Some xs \<and> xs \<noteq> [] \<and> \<not> list_ex bad_item xs"
  by (auto simp: ensureNonEmptyStringArray_def split: option.splits)

lemma ensure_Inl: "ensureNonEmptyStringArray l n = Inl e \<Longrightarrow> \<exists>m. e = ValidationError m"
  by (auto simp: ensureNonEmptyStringArray_def split: option.splits if_splits)

lemma normalize_date_Inr:
  "normalize_date D d = Inr s \<longleftrightarrow> (\<exists>t. Date_parse D d = Some t \<and> s = toISOString D t)"
  by (auto simp: normalize_date_def split: option.splits)

lemma normalize_date_Inl: "normalize_date D d = Inl e \<Longrightarrow> \<exists>m. e = ValidationError m"
  by (auto simp: normalize_date_def split: option.splits)

lemma normalize_time_Inr: "normalize_time t = Inr s \<longleftrightarrow> timePattern (trim t) \<and> s = trim t"
  by (auto simp: normalize_time_def Let_def)

lemma normalize_time_Inl: "normalize_time t = Inl e \<Longrightarrow> \<exists>m. e = ValidationError m"
  by (auto simp: normalize_time_def Let_def split: if_splits)

lemma event_preSave_Inr:
  "event_preSave D f d = Inr a \<Longrightarrow>
   (\<exists>t1 t2 t3 t4 t5 t6 t7 t8 t9 t10 t11 ag tg pd.
      doc_title d = Some t1 \<and> trim t1 \<noteq> [] \<and>
      doc_description d = Some t2 \<and> trim t2 \<noteq> [] \<and>
      doc_overview d = Some t3 \<and> trim t3 \<noteq> [] \<and>
      doc_image d = Some t4 \<and> trim t4 \<noteq> [] \<and>
      doc_venue d = Some t5 \<and> trim t5 \<noteq> [] \<and>
      doc_location d = Some t6 \<and> trim t6 \<noteq> [] \<and>
      doc_date d = Some t7 \<and> trim t7 \<noteq> [] \<and>
      doc_time d = Some t8 \<and> trim t8 \<noteq> [] \<and>
      doc_mode d = Some t9 \<and> trim t9 \<noteq> [] \<and>
      doc_audience d = Some t10 \<and> trim t10 \<noteq> [] \<and>
      doc_organizer d = Some t11 \<and> trim t11 \<noteq> [] \<and>
      doc_agenda d = Some ag \<and> ag \<noteq> [] \<and> \<not> list_ex bad_item ag \<and>
      doc_tags d = Some tg \<and> tg \<noteq> [] \<and> \<not> list_ex bad_item tg \<and>
      Date_parse D (trim t7) = Some pd \<and> timePattern (trim t8) \<and>
      a = \<lparr>title = trim t1, slug = next_slug f (doc_slug d) (trim t1),
           description = trim t2, overview = trim t3, image_url = trim t4,
           venue = trim t5, location = trim t6, date = toISOString D pd, time = trim t8,
           mode = trim t9, audience = trim t10, agenda = ag,
           organizer = trim t11, tags = tg\<rparr>)"
  apply (simp only: event_preSave_def and_then_Inr required_field_Inr ensure_Inr normalize_date_Inr
    normalize_time_Inr)
  apply (elim exE conjE)
  apply (simp only: trim_trim sum.inject)
  apply blast
  done

lemma event_preSave_Inl: "event_preSave D f d = Inl e \<Longrightarrow> \<exists>m. e = ValidationError m"
  apply (simp only: event_preSave_def and_then_Inl)
  apply (elim disjE exE conjE)
  apply (auto dest: required_field_Inl ensure_Inl normalize_date_Inl normalize_time_Inl)
  done

section \<open>Properties of the slug generator\<close>

lemma slug_char_not_upper: "slug_char c \<Longrightarrow> \<not> isUpper c"
  by (auto simp: slug_char_def is_az_def is_digit_def isUpper_def Let_def)

lemma slug_char_not_space: "slug_char c \<Longrightarrow> \<not> isWhiteSpace c"
  by (auto simp: slug_char_def is_az_def is_digit_def isWhiteSpace_def)

lemma space_not_upper: "isWhiteSpace c \<Longrightarrow> \<not> isUpper c"
  by (auto simp: isWhiteSpace_def isUpper_def Let_def)

lemma slug_source_char_cases: "slug_source_char c \<longleftrightarrow> slug_char c \<or> isWhiteSpace c"
  by (auto simp: slug_source_char_def slug_char_def)

lemma toLowerCase_id: "\<forall>c\<in>set s. \<not> isUpper c \<Longrightarrow> toLowerCase s = s"
  by (induction s) (auto simp: toLowerCase_def toLowerChar_def)

lemma trim_set: "set (trim s) \<subseteq> set s"
proof
  fix x assume "x \<in> set (trim s)"
  then have "x \<in> set (dropWhile isWhiteSpace (rev (dropWhile isWhiteSpace s)))"
    by (simp add: trim_def)
  then have "x \<in> set (rev (dropWhile isWhiteSpace s))" by (rule set_dropWhileD)
  then have "x \<in> set (dropWhile isWhiteSpace s)" by simp
  then show "x \<in> set s" by (rule set_dropWhileD)
qed

lemma replace_runs_from_set:
  "set (replace_runs_from b C d s) \<subseteq> insert d {c \<in> set s. \<not> C c}"
  by (induction s arbitrary: b) auto

lemma replace_runs_from_id: "\<forall>c\<in>set s. \<not> C c \<Longrightarrow> replace_runs_from b C d s = s"
  by (induction s arbitrary: b) auto

lemma collapse_from_single:
  "dashes_single (replace_runs_from b (\<lambda>c. c = CHR ''-'') (CHR ''-'') s) \<and>
   (b \<longrightarrow> (case replace_runs_from b (\<lambda>c. c = CHR ''-'') (CHR ''-'') s of [] \<Rightarrow> True | c # _ \<Rightarrow> c \<noteq> CHR ''-''))"
proof (induction s arbitrary: b)
  case Nil
  show ?case by simp
next
  case (Cons a s)
  show ?case
  proof (cases "a = CHR ''-''")
    case True
    then show ?thesis using Cons[of True]
      by (cases "replace_runs_from True (\<lambda>c. c = CHR ''-'') (CHR ''-'') s") auto
  next
    case False
    then show ?thesis using Cons[of False]
      by (cases "replace_runs_from False (\<lambda>c. c = CHR ''-'') (CHR ''-'') s") auto
  qed
qed

lemma collapse_dashes_single: "dashes_single (collapse_dashes s)"
  using collapse_from_single[of False s] by (simp add: collapse_dashes_def replace_runs_def)

lemma collapse_from_id:
  "dashes_single s \<Longrightarrow> (b \<longrightarrow> s = [] \<or> hd s \<noteq> CHR ''-'') \<Longrightarrow>
   replace_runs_from b (\<lambda>c. c = CHR ''-'') (CHR ''-'') s = s"
proof (induction s arbitrary: b)
  case Nil
  show ?case by simp
next
  case (Cons a s)
  then show ?case by (cases s) auto
qed

lemma dashes_single_tl: "dashes_single s \<Longrightarrow> dashes_single (tl s)"
  by (induction s rule: dashes_single.induct) auto

lemma dashes_single_append1: "dashes_single (xs @ ys) \<Longrightarrow> dashes_single xs"
  by (induction xs rule: dashes_single.induct) auto

lemma dashes_single_butlast: "dashes_single s \<Longrightarrow> dashes_single (butlast s)"
  using dashes_single_append1[of "butlast s" "[last s]"] by (cases "s = []") auto

lemma dashes_single_last2: "dashes_single (xs @ [a, b]) \<Longrightarrow> \<not> (a = CHR ''-'' \<and> b = CHR ''-'')"
  by (induction xs rule: dashes_single.induct) auto

lemma trim_dashes_edges: "dashes_single s \<Longrightarrow> no_edge_dash (trim_dashes s) \<and> dashes_single (trim_dashes s)"
proof -
  assume ds: "dashes_single s"
  let ?t = "strip_leading_dash s"
  have t_ds: "dashes_single ?t"
    using ds dashes_single_tl[of s] by (cases s) (auto simp: strip_leading_dash_def)
  have t_hd: "?t = [] \<or> hd ?t \<noteq> CHR ''-''"
    using ds by (cases s rule: dashes_single.cases) (auto simp: strip_leading_dash_def)
  let ?u = "strip_trailing_dash ?t"
  have u_ds: "dashes_single ?u"
    using t_ds dashes_single_butlast[of ?t] by (simp add: strip_trailing_dash_def)
  have u_hd: "?u = [] \<or> hd ?u \<noteq> CHR ''-''"
    using t_hd by (cases ?t) (auto simp: strip_trailing_dash_def)
  have u_last: "?u = [] \<or> last ?u \<noteq> CHR ''-''"
  proof (cases "?t \<noteq> [] \<and> last ?t = CHR ''-''")
    case False
    then show ?thesis by (auto simp: strip_trailing_dash_def)
  next
    case True
    then obtain ys where t: "?t = ys @ [CHR ''-'']"
      by (metis append_butlast_last_id)
    then have u: "?u = ys" by (simp add: strip_trailing_dash_def)
    show ?thesis
    proof (cases ys rule: rev_cases)
      case Nil
      then show ?thesis using u by simp
    next
      case (snoc zs b)
      with t t_ds have "dashes_single (zs @ [b, CHR ''-''])" by simp
      from dashes_single_last2[OF this] have "b \<noteq> CHR ''-''" by simp
      with u snoc show ?thesis by simp
    qed
  qed
  show ?thesis using u_ds u_hd u_last by (auto simp: trim_dashes_def no_edge_dash_def)
qed

lemma trim_dashes_id: "no_edge_dash s \<Longrightarrow> trim_dashes s = s"
  by (cases s) (auto simp: no_edge_dash_def trim_dashes_def strip_leading_dash_def strip_trailing_dash_def)

lemma strip_leading_set: "set (strip_leading_dash s) \<subseteq> set s"
  by (cases s) (auto simp: strip_leading_dash_def)

lemma strip_trailing_set: "set (strip_trailing_dash s) \<subseteq> set s"
  by (auto simp: strip_trailing_dash_def dest: in_set_butlastD)

lemma trim_dashes_set: "set (trim_dashes s) \<subseteq> set s"
  unfolding trim_dashes_def using strip_leading_set strip_trailing_set by blast

lemma spaces_to_dashes_chars: "\<forall>c\<in>set s. slug_source_char c \<Longrightarrow> \<forall>c\<in>set (spaces_to_dashes s). slug_char c"
  using replace_runs_from_set[of False isWhiteSpace "CHR ''-''" s]
  by (auto simp: spaces_to_dashes_def replace_runs_def slug_source_char_cases slug_char_def)

lemma collapse_dashes_set: "set (collapse_dashes s) \<subseteq> set s \<union> {CHR ''-''}"
  using replace_runs_from_set[of False "\<lambda>c. c = CHR ''-''" "CHR ''-''" s]
  by (auto simp: collapse_dashes_def replace_runs_def)

lemma slugify_chars: "\<forall>c\<in>set (slugify v). slug_char c"
proof -
  let ?a = "remove_invalid_chars (trim (toLowerCase v))"
  have "\<forall>c\<in>set ?a. slug_source_char c" by (simp add: remove_invalid_chars_def)
  then have "\<forall>c\<in>set (spaces_to_dashes ?a). slug_char c" by (rule spaces_to_dashes_chars)
  then have "\<forall>c\<in>set (collapse_dashes (spaces_to_dashes ?a)). slug_char c"
    using collapse_dashes_set[of "spaces_to_dashes ?a"] by (auto simp: slug_char_def)
  then show ?thesis
    using trim_dashes_set[of "collapse_dashes (spaces_to_dashes ?a)"] by (auto simp: slugify_def)
qed

lemma slugify_shape: "dashes_single (slugify v) \<and> no_edge_dash (slugify v)"
  using trim_dashes_edges[OF collapse_dashes_single] by (simp add: slugify_def)

lemma slugify_fixed:
  assumes "\<forall>c\<in>set s. slug_char c" "dashes_single s" "no_edge_dash s"
  shows "slugify s = s"
proof -
  have 1: "toLowerCase s = s" using assms(1) by (auto intro!: toLowerCase_id dest: slug_char_not_upper)
  have 2: "trim s = s"
  proof (cases "s = []")
    case True then show ?thesis by (simp add: trim_def)
  next
    case False
    then have "hd s \<in> set s" "last s \<in> set s" by simp_all
    with assms(1) show ?thesis by (auto intro!: trim_id dest: slug_char_not_space)
  qed
  have 3: "remove_invalid_chars s = s"
    using assms(1) by (auto simp: remove_invalid_chars_def slug_source_char_cases)
  have 4: "spaces_to_dashes s = s"
    using assms(1) by (auto simp: spaces_to_dashes_def replace_runs_def intro!: replace_runs_from_id dest: slug_char_not_space)
  have 5: "collapse_dashes s = s"
    using assms(2) by (simp add: collapse_dashes_def replace_runs_def collapse_from_id)
  have 6: "trim_dashes s = s" using assms(3) by (rule trim_dashes_id)
  show ?thesis by (simp add: slugify_def 1 2 3 4 5 6)
qed

lemma slugify_idem: "slugify (slugify x) = slugify x"
  using slugify_fixed[OF slugify_chars] slugify_shape by blast

lemma toLowerCase_lower: "toLowerCase (slugify v) = slugify v"
  using slugify_chars[of v] by (auto intro!: toLowerCase_id dest: slug_char_not_upper)

lemma slugify_no_space: "\<forall>c\<in>set (slugify v). \<not> isWhiteSpace c"
  using slugify_chars[of v] by (auto dest: slug_char_not_space)

lemma only_dashes_single: "dashes_single s \<Longrightarrow> \<forall>c\<in>set s. c = CHR ''-'' \<Longrightarrow> s = [] \<or> s = ''-''"
  by (cases s rule: dashes_single.cases) auto

lemma slugify_all_invalid:
  assumes "\<forall>c\<in>set (toLowerCase v). \<not> is_alnum c"
  shows "slugify v = []"
proof -
  let ?a = "remove_invalid_chars (trim (toLowerCase v))"
  have "set (trim (toLowerCase v)) \<subseteq> set (toLowerCase v)"
    by (rule trim_set)
  with assms have "\<forall>c\<in>set ?a. isWhiteSpace c \<or> c = CHR ''-''"
    by (auto simp: remove_invalid_chars_def slug_source_char_def is_alnum_def)
  then have "\<forall>c\<in>set (spaces_to_dashes ?a). c = CHR ''-''"
    using replace_runs_from_set[of False isWhiteSpace "CHR ''-''" ?a]
    by (auto simp: spaces_to_dashes_def replace_runs_def)
  then have "\<forall>c\<in>set (collapse_dashes (spaces_to_dashes ?a)). c = CHR ''-''"
    using collapse_dashes_set[of "spaces_to_dashes ?a"] by auto
  from only_dashes_single[OF collapse_dashes_single this]
  show ?thesis
    by (auto simp: slugify_def trim_dashes_def strip_leading_dash_def strip_trailing_dash_def)
qed

lemma alnum_slug_char: "is_alnum c \<Longrightarrow> slug_char c"
  by (auto simp: is_alnum_def slug_char_def)

lemma alnum_not_dash: "is_alnum c \<Longrightarrow> c \<noteq> CHR ''-''"
  by (auto simp: is_alnum_def is_az_def is_digit_def)

lemma runs_word:
  "\<forall>c\<in>set w. \<not> C c \<Longrightarrow> w \<noteq> [] \<Longrightarrow>
   replace_runs_from b C d (w @ r) = w @ replace_runs_from False C d r"
  by (induction w arbitrary: b) (auto, (case_tac w; simp)+)

lemma runs_gap_True:
  "\<forall>c\<in>set g. C c \<Longrightarrow> replace_runs_from True C d (g @ r) = replace_runs_from True C d r"
  by (induction g) auto

lemma runs_gap_False:
  "\<forall>c\<in>set g. C c \<Longrightarrow> g \<noteq> [] \<Longrightarrow>
   replace_runs_from False C d (g @ r) = d # replace_runs_from True C d r"
  by (cases g) (auto simp: runs_gap_True)

lemma spaced_hd_last:
  "\<forall>(w, g)\<in>set wgs. is_word w \<and> is_gap g \<Longrightarrow> is_word lw \<Longrightarrow>
   spaced wgs lw \<noteq> [] \<and> is_alnum (hd (spaced wgs lw)) \<and> is_alnum (last (spaced wgs lw))"
  by (induction wgs lw rule: spaced.induct) (auto simp: is_word_def is_gap_def list_all_iff)

lemma alnum_not_space: "is_alnum c \<Longrightarrow> \<not> isWhiteSpace c"
  by (auto dest: alnum_slug_char slug_char_not_space)

lemma spaces_to_dashes_spaced:
  "\<forall>(w, g)\<in>set wgs. is_word w \<and> is_gap g \<Longrightarrow> is_word lw \<Longrightarrow>
   replace_runs_from b isWhiteSpace (CHR ''-'') (spaced wgs lw) = dashed wgs lw"
proof (induction wgs lw arbitrary: b rule: spaced.induct)
  case (1 lw)
  then show ?case
    by (auto simp: is_word_def list_all_iff intro!: replace_runs_from_id dest: alnum_not_space)
next
  case (2 w g wgs lw)
  then have w: "\<forall>c\<in>set w. \<not> isWhiteSpace c" "w \<noteq> []"
    and g: "\<forall>c\<in>set g. isWhiteSpace c" "g \<noteq> []"
    by (auto simp: is_word_def is_gap_def list_all_iff dest: alnum_not_space)
  from 2 have IH: "replace_runs_from True isWhiteSpace (CHR ''-'') (spaced wgs lw) = dashed wgs lw"
    by simp
  show ?case
    by (simp add: runs_word[OF w] runs_gap_False[OF g] IH)
qed

lemma dashes_single_word:
  "\<forall>c\<in>set w. c \<noteq> CHR ''-'' \<Longrightarrow> dashes_single z \<Longrightarrow> dashes_single (w @ z)"
proof (induction w)
  case Nil
  then show ?case by simp
next
  case (Cons a w)
  then show ?case by (cases "w @ z") auto
qed

lemma dashed_shape:
  "\<forall>(w, g)\<in>set wgs. is_word w \<and> is_gap g \<Longrightarrow> is_word lw \<Longrightarrow>
   dashed wgs lw \<noteq> [] \<and> is_alnum (hd (dashed wgs lw)) \<and> is_alnum (last (dashed wgs lw)) \<and>
   dashes_single (dashed wgs lw) \<and> (\<forall>c\<in>set (dashed wgs lw). slug_char c)"
proof (induction wgs lw rule: dashed.induct)
  case (1 lw)
  then have "\<forall>c\<in>set lw. c \<noteq> CHR ''-''" by (auto simp: is_word_def list_all_iff dest: alnum_not_dash)
  from dashes_single_word[OF this, of "[]"] 1 show ?case
    by (auto simp: is_word_def list_all_iff dest: alnum_slug_char)
next
  case (2 w g wgs lw)
  let ?z = "dashed wgs lw"
  from 2 have z: "?z \<noteq> []" "is_alnum (hd ?z)" "is_alnum (last ?z)" "dashes_single ?z"
    "\<forall>c\<in>set ?z. slug_char c" by auto
  from 2 have w: "w \<noteq> []" "\<forall>c\<in>set w. is_alnum c" by (auto simp: is_word_def list_all_iff)
  from z have "dashes_single (CHR ''-'' # ?z)"
    by (cases ?z) (auto dest: alnum_not_dash)
  with w have "dashes_single (w @ CHR ''-'' # ?z)"
    by (auto intro!: dashes_single_word dest: alnum_not_dash)
  moreover have "\<forall>c\<in>set (w @ CHR ''-'' # ?z). slug_char c"
    using z(5) w(2) by (auto simp: slug_char_def is_alnum_def)
  moreover have "hd (w @ CHR ''-'' # ?z) = hd w" "last (w @ CHR ''-'' # ?z) = last ?z"
    using w(1) z(1) by simp_all
  moreover have "is_alnum (hd w)" using w by simp
  ultimately show ?case using z(3) by simp
qed

lemma dropWhile_prefix:
  "\<forall>c\<in>set p. P c \<Longrightarrow> x \<noteq> [] \<Longrightarrow> \<not> P (hd x) \<Longrightarrow> dropWhile P (p @ x) = x"
  by (induction p) (auto simp: dropWhile_eq_self_iff)

lemma trim_padded:
  assumes "\<forall>c\<in>set pre. isWhiteSpace c" "\<forall>c\<in>set post. isWhiteSpace c"
    "x \<noteq> []" "\<not> isWhiteSpace (hd x)" "\<not> isWhiteSpace (last x)"
  shows "trim (pre @ x @ post) = x"
proof -
  have "dropWhile isWhiteSpace (pre @ (x @ post)) = x @ post"
    using assms by (intro dropWhile_prefix) auto
  moreover have "dropWhile isWhiteSpace (rev post @ rev x) = rev x"
    using assms by (intro dropWhile_prefix) (auto simp: hd_rev)
  ultimately show ?thesis by (simp add: trim_def)
qed

lemma slugify_spaced_lower:
  assumes wgs: "\<forall>(w, g)\<in>set wgs. is_word w \<and> is_gap g" and lw: "is_word lw"
    and pre: "\<forall>c\<in>set pre. isWhiteSpace c" and post: "\<forall>c\<in>set post. isWhiteSpace c"
  shows "slugify (pre @ spaced wgs lw @ post) = dashed wgs lw"
proof -
  let ?x = "spaced wgs lw"
  have x_chars: "\<forall>c\<in>set ?x. is_alnum c \<or> isWhiteSpace c"
    using wgs lw by (induction wgs lw rule: spaced.induct) (auto simp: is_word_def is_gap_def list_all_iff)
  have "\<forall>c\<in>set (pre @ ?x @ post). \<not> isUpper c"
    using x_chars pre post by (auto dest: space_not_upper alnum_slug_char slug_char_not_upper)
  then have 1: "toLowerCase (pre @ ?x @ post) = pre @ ?x @ post" by (rule toLowerCase_id)
  from spaced_hd_last[OF wgs lw]
  have 2: "trim (pre @ ?x @ post) = ?x"
    by (auto intro!: trim_padded pre post dest: alnum_not_space)
  have 3: "remove_invalid_chars ?x = ?x"
    using x_chars by (auto simp: remove_invalid_chars_def slug_source_char_def is_alnum_def
        intro!: filter_True)
  have 4: "spaces_to_dashes ?x = dashed wgs lw"
    by (simp add: spaces_to_dashes_def replace_runs_def spaces_to_dashes_spaced[OF wgs lw])
  from dashed_shape[OF wgs lw] have "slugify (dashed wgs lw) = dashed wgs lw"
    by (auto intro!: slugify_fixed simp: no_edge_dash_def dest: alnum_not_dash)
  moreover from dashed_shape[OF wgs lw]
  have "collapse_dashes (dashed wgs lw) = dashed wgs lw"
    by (simp add: collapse_dashes_def replace_runs_def collapse_from_id)
  moreover from dashed_shape[OF wgs lw]
  have "trim_dashes (dashed wgs lw) = dashed wgs lw"
    by (auto intro!: trim_dashes_id simp: no_edge_dash_def dest: alnum_not_dash)
  ultimately show ?thesis by (simp add: slugify_def 1 2 3 4)
qed

section \<open>Properties of saving an event\<close>

lemma setters_time [simp]: "doc_time (eventSchema_setters d) = doc_time d"
  and setters_date [simp]: "doc_date (eventSchema_setters d) = doc_date d"
  and setters_slug [simp]: "doc_slug (eventSchema_setters d) = doc_slug d"
  and setters_agenda [simp]: "doc_agenda (eventSchema_setters d) = doc_agenda d"
  and setters_tags [simp]: "doc_tags (eventSchema_setters d) = doc_tags d"
  and setters_title [simp]: "doc_title (eventSchema_setters d) = map_option trim (doc_title d)"
  by (simp_all add: eventSchema_setters_def)

lemma insert_event_Inr:
  "insert_event store a = Inr (store', ev) \<longleftrightarrow>
   \<not> list_ex (\<lambda>e. slug e = slug a) store \<and>
   ev = EventAttrs.extend a \<lparr>event_id = fresh_id store\<rparr> \<and> store' = store @ [ev]"
  by (auto simp: insert_event_def Let_def)

lemma insert_event_Inl:
  "insert_event store a = Inl e \<longleftrightarrow>
   list_ex (\<lambda>e. slug e = slug a) store \<and> e = ConflictError ''E11000 duplicate key error''"
  by (auto simp: insert_event_def Let_def)

lemma Event_create_Inr:
  "Event_create D store doc = Inr (store', ev) \<longleftrightarrow>
   eventSchema_valid (eventSchema_setters doc) \<and>
   (\<exists>a. event_preSave D True (eventSchema_setters doc) = Inr a \<and>
        insert_event store a = Inr (store', ev))"
  by (auto simp: Event_create_def Let_def and_then_Inr)

lemma Event_create_Inl:
  "Event_create D store doc = Inl e \<Longrightarrow>
   (\<exists>m. e = ValidationError m) \<or>
   (e = ConflictError ''E11000 duplicate key error'' \<and>
    eventSchema_valid (eventSchema_setters doc) \<and>
    (\<exists>a. event_preSave D True (eventSchema_setters doc) = Inr a \<and>
         list_ex (\<lambda>e. slug e = slug a) store))"
  by (auto simp: Event_create_def Let_def and_then_Inl insert_event_Inl
      split: if_splits dest: event_preSave_Inl)

lemma Event_create_rejects:
  assumes "\<not> eventSchema_valid (eventSchema_setters doc) \<or>
           (\<forall>a. event_preSave D True (eventSchema_setters doc) \<noteq> Inr a)"
  shows "\<exists>m. Event_create D store doc = Inl (ValidationError m)"
proof (cases "Event_create D store doc")
  case (Inl e)
  from Event_create_Inl[OF Inl] assms Inl show ?thesis by auto
next
  case (Inr p)
  then obtain s ev where "Event_create D store doc = Inr (s, ev)" by (cases p) auto
  with assms show ?thesis by (auto simp: Event_create_Inr)
qed

lemma event_preSave_rejects:
  assumes "\<forall>a. event_preSave D f d \<noteq> Inr a"
  shows "\<exists>m. event_preSave D f d = Inl (ValidationError m)"
proof (cases "event_preSave D f d")
  case (Inl e)
  with event_preSave_Inl[OF Inl] show ?thesis by auto
next
  case (Inr a)
  with assms show ?thesis by simp
qed

lemma extend_fields [simp]:
  "slug (EventAttrs.extend a x) = slug a" "time (EventAttrs.extend a x) = time a"
  "date (EventAttrs.extend a x) = date a" "title (EventAttrs.extend a x) = title a"
  "agenda (EventAttrs.extend a x) = agenda a" "tags (EventAttrs.extend a x) = tags a"
  by (simp_all add: EventAttrs.defs)



section \<open>The time of an event\<close>

lemma time_error_origin:
  assumes "event_preSave D f d =
             Inl (ValidationError ''Invalid time format. Expected HH:MM in 24-hour format.'')"
  shows "\<exists>t. doc_time d = Some t \<and> \<not> timePattern (trim t)"
proof -
  let ?e = "ValidationError ''Invalid time format. Expected HH:MM in 24-hour format.''"
  have rf: "required_field n v \<noteq> Inl ?e" for n v
    by (simp add: required_field_def split: option.splits)
  have en: "ensureNonEmptyStringArray v n \<noteq> Inl ?e" for n v
    by (simp add: ensureNonEmptyStringArray_def split: option.splits)
  have nd: "normalize_date D x \<noteq> Inl ?e" for x
    by (simp add: normalize_date_def split: option.splits)
  from assms obtain t8 where "required_field ''time'' (doc_time d) = Inr t8"
    and "normalize_time t8 = Inl ?e"
    by (simp only: event_preSave_def and_then_Inl rf en nd) auto
  then show ?thesis
    by (auto simp: required_field_Inr normalize_time_def Let_def trim_trim split: if_splits)
qed

text \<open>
  C6. On every save of an event the trimmed \<open>time\<close> is tested against
  \<open>^([01]\d|2[0-3]):([0-5]\d)$\<close>. The time step throws its validation error exactly when
  the trimmed value does not match; a save whose time does not match fails with a validation
  error, both in the hook (whatever \<open>isModified('title')\<close> says, so on create and on update)
  and in \<open>Event.create\<close>; the hook reports the time error only for a time that does not
  match; and a save that succeeds stores the trimmed time, which matches. \<open>9:30\<close> is
  rejected and \<open>09:30\<close> passes the time step.
\<close>

theorem time_validation:
  "(normalize_time t = Inl (ValidationError ''Invalid time format. Expected HH:MM in 24-hour format.'')
      \<longleftrightarrow> \<not> timePattern (trim t)) \<and>
   (normalize_time t = Inr (trim t) \<longleftrightarrow> timePattern (trim t)) \<and>
   (doc_time d = Some t \<and> \<not> timePattern (trim t) \<longrightarrow>
      (\<exists>m. event_preSave D f d = Inl (ValidationError m)) \<and>
      (\<exists>m. Event_create D store d = Inl (ValidationError m))) \<and>
   (event_preSave D f d =
      Inl (ValidationError ''Invalid time format. Expected HH:MM in 24-hour format.'') \<longrightarrow>
      (\<exists>t'. doc_time d = Some t' \<and> \<not> timePattern (trim t'))) \<and>
   (\<forall>a. event_preSave D f d = Inr a \<longrightarrow>
      (\<exists>t'. doc_time d = Some t' \<and> timePattern (trim t') \<and> time a = trim t')) \<and>
   (\<forall>store' ev. Event_create D store d = Inr (store', ev) \<longrightarrow>
      (\<exists>t'. doc_time d = Some t' \<and> timePattern (trim t') \<and> time ev = trim t')) \<and>
   normalize_time ''9:30'' =
     Inl (ValidationError ''Invalid time format. Expected HH:MM in 24-hour format.'') \<and>
   normalize_time ''09:30'' = Inr ''09:30''"
proof -
  have step1: "normalize_time t =
      Inl (ValidationError ''Invalid time format. Expected HH:MM in 24-hour format.'')
      \<longleftrightarrow> \<not> timePattern (trim t)"
    by (simp add: normalize_time_def Let_def)
  have step2: "normalize_time t = Inr (trim t) \<longleftrightarrow> timePattern (trim t)"
    by (simp add: normalize_time_def Let_def)
  have hook_ok: "\<exists>t'. doc_time d' = Some t' \<and> timePattern (trim t') \<and> time a = trim t'"
    if "event_preSave D f' d' = Inr a" for a f' d'
    using event_preSave_Inr[OF that] by auto
  have reject: "(\<exists>m. event_preSave D f d = Inl (ValidationError m)) \<and>
      (\<exists>m. Event_create D store d = Inl (ValidationError m))"
    if "doc_time d = Some t" "\<not> timePattern (trim t)"
  proof
    have "\<forall>a. event_preSave D f d \<noteq> Inr a"
      using hook_ok[of f d] that by auto
    then show "\<exists>m. event_preSave D f d = Inl (ValidationError m)"
      by (rule event_preSave_rejects)
    have "\<forall>a. event_preSave D True (eventSchema_setters d) \<noteq> Inr a"
      using hook_ok[of True "eventSchema_setters d"] that by auto
    then show "\<exists>m. Event_create D store d = Inl (ValidationError m)"
      by (intro Event_create_rejects) simp
  qed
  have create_ok: "\<exists>t'. doc_time d = Some t' \<and> timePattern (trim t') \<and> time ev = trim t'"
    if "Event_create D store d = Inr (store', ev)" for store' ev
    using that hook_ok[of True "eventSchema_setters d"]
    by (auto simp: Event_create_Inr insert_event_Inr)
  have ex1: "normalize_time ''9:30'' =
     Inl (ValidationError ''Invalid time format. Expected HH:MM in 24-hour format.'')"
    by code_simp
  have ex2: "normalize_time ''09:30'' = Inr ''09:30''"
    by code_simp
  from step1 step2 reject time_error_origin[of D f d] hook_ok[of f d] create_ok ex1 ex2
  show ?thesis by blast
qed

theorem time_validation_witness:
  "doc_time (sample_doc\<lparr>doc_time := Some ''9:30''\<rparr>) = Some ''9:30'' \<and>
   \<not> timePattern (trim ''9:30'') \<and>
   (\<exists>m. Event_create sample_date [] (sample_doc\<lparr>doc_time := Some ''9:30''\<rparr>) =
          Inl (ValidationError m)) \<and>
   Event_create sample_date [] sample_doc = Inr ([sample_event], sample_event) \<and>
   timePattern (trim ''09:30'') \<and> time sample_event = trim ''09:30''"
proof -
  have h1: "doc_time (sample_doc\<lparr>doc_time := Some ''9:30''\<rparr>) = Some ''9:30''" by simp
  have h2: "\<not> timePattern (trim ''9:30'')" by code_simp
  have h3: "Event_create sample_date [] sample_doc = Inr ([sample_event], sample_event)"
    by code_simp
  have h4: "doc_time sample_doc = Some ''09:30''" by (simp add: sample_doc_def)
  from time_validation[where t = "''9:30''" and d = "sample_doc\<lparr>doc_time := Some ''9:30''\<rparr>"
      and D = sample_date and store = "[]"] h1 h2
  have a: "\<exists>m. Event_create sample_date [] (sample_doc\<lparr>doc_time := Some ''9:30''\<rparr>) =
          Inl (ValidationError m)" by blast
  from time_validation[where d = sample_doc and D = sample_date and store = "[]"] h3 h4
  have b: "timePattern (trim ''09:30'') \<and> time sample_event = trim ''09:30''" by auto
  from h1 h2 a h3 b show ?thesis by blast
qed

section \<open>The date of an event\<close>

lemma date_error_origin:
  assumes "event_preSave D f d =
             Inl (ValidationError ''Invalid date format. Expected a valid date string.'')"
  shows "\<exists>x. doc_date d = Some x \<and> Date_parse D (trim x) = None"
proof -
  let ?e = "ValidationError ''Invalid date format. Expected a valid date string.''"
  have rf: "required_field n v \<noteq> Inl ?e" for n v
    by (simp add: required_field_def split: option.splits)
  have en: "ensureNonEmptyStringArray v n \<noteq> Inl ?e" for n v
    by (simp add: ensureNonEmptyStringArray_def split: option.splits)
  have nt: "normalize_time x \<noteq> Inl ?e" for x
    by (simp add: normalize_time_def Let_def)
  from assms obtain t7 where "required_field ''date'' (doc_date d) = Inr t7"
    and "normalize_date D t7 = Inl ?e"
    by (simp only: event_preSave_def and_then_Inl rf en nt) auto
  then show ?thesis
    by (auto simp: required_field_Inr normalize_date_def split: option.splits)
qed

text \<open>
  C7. On every save of an event the trimmed \<open>date\<close> is handed to the date object of the
  runtime. The date step throws its validation error exactly when the string does not parse
  (the time value is \<open>NaN\<close>); a save whose date does not parse fails with a validation
  error, in the hook on create and on update and in \<open>Event.create\<close>; the hook reports the
  date error only for a date that does not parse; and a save that succeeds stores the ISO 8601
  text of the parsed instant.
\<close>

theorem date_validation:
  "(normalize_date D x = Inl (ValidationError ''Invalid date format. Expected a valid date string.'')
      \<longleftrightarrow> Date_parse D x = None) \<and>
   (\<forall>p. Date_parse D x = Some p \<longrightarrow> normalize_date D x = Inr (toISOString D p)) \<and>
   (doc_date d = Some x \<and> Date_parse D (trim x) = None \<longrightarrow>
      (\<exists>m. event_preSave D f d = Inl (ValidationError m)) \<and>
      (\<exists>m. Event_create D store d = Inl (ValidationError m))) \<and>
   (event_preSave D f d =
      Inl (ValidationError ''Invalid date format. Expected a valid date string.'') \<longrightarrow>
      (\<exists>x'. doc_date d = Some x' \<and> Date_parse D (trim x') = None)) \<and>
   (\<forall>a. event_preSave D f d = Inr a \<longrightarrow>
      (\<exists>x' p. doc_date d = Some x' \<and> Date_parse D (trim x') = Some p \<and>
              date a = toISOString D p)) \<and>
   (\<forall>store' ev. Event_create D store d = Inr (store', ev) \<longrightarrow>
      (\<exists>x' p. doc_date d = Some x' \<and> Date_parse D (trim x') = Some p \<and>
              date ev = toISOString D p))"
proof -
  have step1: "normalize_date D x =
      Inl (ValidationError ''Invalid date format. Expected a valid date string.'')
      \<longleftrightarrow> Date_parse D x = None"
    by (simp add: normalize_date_def split: option.splits)
  have step2: "\<forall>p. Date_parse D x = Some p \<longrightarrow> normalize_date D x = Inr (toISOString D p)"
    by (simp add: normalize_date_def)
  have hook_ok: "\<exists>x' p. doc_date d' = Some x' \<and> Date_parse D (trim x') = Some p \<and>
      date a = toISOString D p"
    if "event_preSave D f' d' = Inr a" for a f' d'
    using event_preSave_Inr[OF that] by auto
  have reject: "(\<exists>m. event_preSave D f d = Inl (ValidationError m)) \<and>
      (\<exists>m. Event_create D store d = Inl (ValidationError m))"
    if "doc_date d = Some x" "Date_parse D (trim x) = None"
  proof
    have "\<forall>a. event_preSave D f d \<noteq> Inr a"
      using hook_ok[of f d] that by auto
    then show "\<exists>m. event_preSave D f d = Inl (ValidationError m)"
      by (rule event_preSave_rejects)
    have "\<forall>a. event_preSave D True (eventSchema_setters d) \<noteq> Inr a"
      using hook_ok[of True "eventSchema_setters d"] that by auto
    then show "\<exists>m. Event_create D store d = Inl (ValidationError m)"
      by (intro Event_create_rejects) simp
  qed
  have create_ok: "\<exists>x' p. doc_date d = Some x' \<and> Date_parse D (trim x') = Some p \<and>
      date ev = toISOString D p"
    if "Event_create D store d = Inr (store', ev)" for store' ev
    using that hook_ok[of True "eventSchema_setters d"]
    by (auto simp: Event_create_Inr insert_event_Inr)
  from step1 step2 reject date_error_origin[of D f d] hook_ok[of f d] create_ok
  show ?thesis by blast
qed

theorem date_validation_witness:
  "doc_date (sample_doc\<lparr>doc_date := Some ''tomorrow''\<rparr>) = Some ''tomorrow'' \<and>
   Date_parse sample_date (trim ''tomorrow'') = None \<and>
   (\<exists>m. Event_create sample_date [] (sample_doc\<lparr>doc_date := Some ''tomorrow''\<rparr>) =
          Inl (ValidationError m)) \<and>
   Event_create sample_date [] sample_doc = Inr ([sample_event], sample_event) \<and>
   (\<exists>p. Date_parse sample_date (trim ''2025-11-20'') = Some p \<and>
        date sample_event = toISOString sample_date p)"
proof -
  have h1: "doc_date (sample_doc\<lparr>doc_date := Some ''tomorrow''\<rparr>) = Some ''tomorrow''" by simp
  have h2: "Date_parse sample_date (trim ''tomorrow'') = None" by code_simp
  have h3: "Event_create sample_date [] sample_doc = Inr ([sample_event], sample_event)"
    by code_simp
  have h4: "doc_date sample_doc = Some ''2025-11-20''" by (simp add: sample_doc_def)
  from date_validation[where x = "''tomorrow''"
      and d = "sample_doc\<lparr>doc_date := Some ''tomorrow''\<rparr>"
      and D = sample_date and store = "[]"] h1 h2
  have a: "\<exists>m. Event_create sample_date [] (sample_doc\<lparr>doc_date := Some ''tomorrow''\<rparr>) =
          Inl (ValidationError m)" by blast
  from date_validation[where d = sample_doc and D = sample_date and store = "[]"] h3 h4
  have b: "\<exists>p. Date_parse sample_date (trim ''2025-11-20'') = Some p \<and>
        date sample_event = toISOString sample_date p" by auto
  from h1 h2 a h3 b show ?thesis by blast
qed

section \<open>The agenda and the tags of an event\<close>

























section \<open>The uniqueness of slugs\<close>

lemma next_slug_new: "next_slug True old t = slugify t"
  by (simp add: next_slug_def split: option.splits)

lemma event_accepted_iff:
  "event_accepted D doc \<longleftrightarrow>
   eventSchema_valid (eventSchema_setters doc) \<and>
   (\<exists>a. event_preSave D True (eventSchema_setters doc) = Inr a)"
  by (auto simp: event_accepted_def split: sum.splits)

lemma created_slug:
  assumes "Event_create D store doc = Inr (store', ev)"
  shows "\<exists>t. doc_title doc = Some t \<and> slug ev = slugify (trim t) \<and> title ev = trim t \<and>
             store' = store @ [ev] \<and> \<not> list_ex (\<lambda>e. slug e = slug ev) store"
proof -
  from assms obtain a where a: "event_preSave D True (eventSchema_setters doc) = Inr a"
    and i: "insert_event store a = Inr (store', ev)"
    by (auto simp: Event_create_Inr)
  from event_preSave_Inr[OF a] obtain t where "doc_title doc = Some t"
    and "slug a = slugify (trim t)" and "title a = trim t"
    by (auto simp: next_slug_new trim_trim)
  with i show ?thesis by (auto simp: insert_event_Inr)
qed

text \<open>
  C5. An insert whose slug equals the slug of a stored event breaks the unique index and
  fails with a conflict error. After an event has been created, creating one with the same
  title never stores a second event: it fails with the conflict error when the second
  document passes validation (no disambiguated slug is made), and with a validation error
  otherwise. Creating events keeps the stored slugs distinct.
\<close>

theorem slug_uniqueness:
  "(list_ex (\<lambda>e. slug e = slug a) store \<longrightarrow>
      insert_event store a = Inl (ConflictError ''E11000 duplicate key error'')) \<and>
   (Event_create D s0 first = Inr (s1, ev1) \<and>
    map_option trim (doc_title second) = map_option trim (doc_title first) \<longrightarrow>
      (\<forall>s2 ev2. Event_create D s1 second \<noteq> Inr (s2, ev2)) \<and>
      (event_accepted D second \<longrightarrow>
         Event_create D s1 second = Inl (ConflictError ''E11000 duplicate key error'')) \<and>
      (\<not> event_accepted D second \<longrightarrow>
         (\<exists>m. Event_create D s1 second = Inl (ValidationError m)))) \<and>
   (distinct (map slug s0) \<and> Event_create D s0 first = Inr (s1, ev1) \<longrightarrow>
      distinct (map slug s1))"
proof (intro conjI impI)
  assume "list_ex (\<lambda>e. slug e = slug a) store"
  then show "insert_event store a = Inl (ConflictError ''E11000 duplicate key error'')"
    by (simp add: insert_event_def)
next
  assume "distinct (map slug s0) \<and> Event_create D s0 first = Inr (s1, ev1)"
  then have d: "distinct (map slug s0)" and c: "Event_create D s0 first = Inr (s1, ev1)"
    by simp_all
  from created_slug[OF c] have s1: "s1 = s0 @ [ev1]"
    and n: "\<not> list_ex (\<lambda>e. slug e = slug ev1) s0" by auto
  from n have "slug ev1 \<notin> set (map slug s0)" by (auto simp: list_ex_iff)
  with d s1 show "distinct (map slug s1)" by simp
next
  assume h: "Event_create D s0 first = Inr (s1, ev1) \<and>
    map_option trim (doc_title second) = map_option trim (doc_title first)"
  then obtain t where t: "doc_title first = Some t" "slug ev1 = slugify (trim t)"
    "s1 = s0 @ [ev1]"
    using created_slug[of D s0 first s1 ev1] by auto
  have clash: "list_ex (\<lambda>e. slug e = slug a2) s1"
    if "event_preSave D True (eventSchema_setters second) = Inr a2" for a2
  proof -
    from event_preSave_Inr[OF that] obtain t2 where "doc_title second = Some t2"
      and "slug a2 = slugify (trim t2)"
      by (auto simp: next_slug_new trim_trim)
    with h t show ?thesis by (auto simp: list_ex_iff)
  qed
  show "\<forall>s2 ev2. Event_create D s1 second \<noteq> Inr (s2, ev2)"
    using clash by (auto simp: Event_create_Inr insert_event_Inr)
  {
    assume "event_accepted D second"
    then obtain a2 where v: "eventSchema_valid (eventSchema_setters second)"
      and a2: "event_preSave D True (eventSchema_setters second) = Inr a2"
      by (auto simp: event_accepted_iff)
    from clash[OF a2] v a2
    show "Event_create D s1 second = Inl (ConflictError ''E11000 duplicate key error'')"
      by (simp add: Event_create_def Let_def and_then_def insert_event_def)
  }
  {
    assume "\<not> event_accepted D second"
    then show "\<exists>m. Event_create D s1 second = Inl (ValidationError m)"
      by (intro Event_create_rejects) (auto simp: event_accepted_iff)
  }
qed

theorem slug_uniqueness_witness:
  "Event_create sample_date [] sample_doc = Inr ([sample_event], sample_event) \<and>
   map_option trim (doc_title (sample_doc\<lparr>doc_title := Some '' Cloud Next 2026 ''\<rparr>)) =
     map_option trim (doc_title sample_doc) \<and>
   event_accepted sample_date (sample_doc\<lparr>doc_title := Some '' Cloud Next 2026 ''\<rparr>) \<and>
   Event_create sample_date [sample_event] (sample_doc\<lparr>doc_title := Some '' Cloud Next 2026 ''\<rparr>) =
     Inl (ConflictError ''E11000 duplicate key error'') \<and>
   distinct (map slug ([] :: EventStore)) \<and> distinct (map slug [sample_event]) \<and>
   list_ex (\<lambda>e. slug e = slug sample_event) [sample_event] \<and>
   insert_event [sample_event] (EventAttrs.truncate sample_event) =
     Inl (ConflictError ''E11000 duplicate key error'')"
proof -
  let ?second = "sample_doc\<lparr>doc_title := Some '' Cloud Next 2026 ''\<rparr>"
  have h1: "Event_create sample_date [] sample_doc = Inr ([sample_event], sample_event)"
    by code_simp
  have h2: "map_option trim (doc_title ?second) = map_option trim (doc_title sample_doc)"
    by code_simp
  have h3: "event_accepted sample_date ?second" by code_simp
  have h4: "distinct (map slug ([] :: EventStore))" by simp
  have h5: "list_ex (\<lambda>e. slug e = slug (EventAttrs.truncate sample_event)) [sample_event]"
    by (simp add: EventAttrs.truncate_def)
  have h6: "list_ex (\<lambda>e. slug e = slug sample_event) [sample_event]" by simp
  note T = slug_uniqueness[where D = sample_date and ?s0.0 = "[]" and first = sample_doc
      and ?s1.0 = "[sample_event]" and ?ev1.0 = sample_event and second = ?second
      and store = "[sample_event]" and a = "EventAttrs.truncate sample_event"]
  from T h1 h2 h3 have a: "Event_create sample_date [sample_event] ?second =
     Inl (ConflictError ''E11000 duplicate key error'')" by blast
  from T h1 h4 have b: "distinct (map slug [sample_event])" by blast
  from T h5 have c: "insert_event [sample_event] (EventAttrs.truncate sample_event) =
     Inl (ConflictError ''E11000 duplicate key error'')" by blast
  from h1 h2 h3 a h4 b h6 c show ?thesis by blast
qed

section \<open>The contract of the slug generator\<close>

lemma toLowerChar_not_upper: "\<not> isUpper (toLowerChar c)"
  by (auto simp: toLowerChar_def isUpper_def Let_def)

lemma toLowerCase_idem: "toLowerCase (toLowerCase s) = toLowerCase s"
  by (rule toLowerCase_id) (auto simp: toLowerCase_def toLowerChar_not_upper)

lemma slugify_toLowerCase: "slugify (toLowerCase v) = slugify v"
  by (simp add: slugify_def toLowerCase_idem)

lemma trim_slugify: "trim (slugify v) = slugify v"
proof (rule trim_id)
  show "slugify v = [] \<or> (\<not> isWhiteSpace (hd (slugify v)) \<and> \<not> isWhiteSpace (last (slugify v)))"
  proof (cases "slugify v = []")
    case True
    then show ?thesis by simp
  next
    case False
    then have "hd (slugify v) \<in> set (slugify v)" "last (slugify v) \<in> set (slugify v)"
      by simp_all
    with slugify_no_space[of v] show ?thesis by blast
  qed
qed

text \<open>
  C9. \<open>slugify\<close> is a function of its argument alone. For every input the result has only
  characters of \<open>[a-z0-9-]\<close>, is its own lower-case and trimmed form, has no dash at either
  end and no two dashes in a row. When the lower-cased input is a text of words over
  \<open>[a-z0-9]\<close> separated by runs of white space, with white space around it, the result is
  the words joined by single dashes. An input that is empty, or has no character that
  lower-cases into \<open>[a-z0-9]\<close>, gives the empty string. \<open>Hello, World!\<close> gives
  \<open>hello-world\<close>, and \<open>multiple   spaces\<close> with blanks around it gives
  \<open>multiple-spaces\<close>.
\<close>

theorem slugify_contract:
  "list_all slug_char (slugify v) \<and>
   toLowerCase (slugify v) = slugify v \<and>
   trim (slugify v) = slugify v \<and>
   no_edge_dash (slugify v) \<and>
   dashes_single (slugify v) \<and>
   (list_all (\<lambda>(w, g). is_word w \<and> is_gap g) wgs \<and> is_word lw \<and>
    list_all isWhiteSpace pre \<and> list_all isWhiteSpace post \<and>
    toLowerCase v = pre @ spaced wgs lw @ post \<longrightarrow>
      slugify v = dashed wgs lw) \<and>
   (list_all (\<lambda>c. \<not> is_alnum c) (toLowerCase v) \<longrightarrow> slugify v = []) \<and>
   slugify [] = [] \<and>
   slugify ''Hello, World!'' = ''hello-world'' \<and>
   slugify ''  multiple   spaces '' = ''multiple-spaces''"
proof -
  have chars: "list_all slug_char (slugify v)"
    using slugify_chars[of v] by (simp add: list_all_iff)
  have words: "slugify v = dashed wgs lw"
    if "list_all (\<lambda>(w, g). is_word w \<and> is_gap g) wgs \<and> is_word lw \<and>
        list_all isWhiteSpace pre \<and> list_all isWhiteSpace post \<and>
        toLowerCase v = pre @ spaced wgs lw @ post"
  proof -
    from that have "slugify (toLowerCase v) = dashed wgs lw"
      by (auto simp: list_all_iff intro!: slugify_spaced_lower)
    then show ?thesis by (simp add: slugify_toLowerCase)
  qed
  have invalid: "slugify v = []" if "list_all (\<lambda>c. \<not> is_alnum c) (toLowerCase v)"
    using that by (intro slugify_all_invalid) (simp add: list_all_iff)
  have empty: "slugify [] = []" by code_simp
  have ex1: "slugify ''Hello, World!'' = ''hello-world''" by code_simp
  have ex2: "slugify ''  multiple   spaces '' = ''multiple-spaces''" by code_simp
  from chars toLowerCase_lower[of v] trim_slugify[of v] slugify_shape[of v] words invalid
    empty ex1 ex2
  show ?thesis by blast
qed

theorem slugify_contract_witness:
  "list_all (\<lambda>(w, g). is_word w \<and> is_gap g) [(''big'', ''  ''), (''data'', '' '')] \<and>
   is_word ''2026'' \<and> list_all isWhiteSpace '' '' \<and> list_all isWhiteSpace [] \<and>
   toLowerCase '' Big  Data 2026'' =
     '' '' @ spaced [(''big'', ''  ''), (''data'', '' '')] ''2026'' @ [] \<and>
   slugify '' Big  Data 2026'' = ''big-data-2026'' \<and>
   list_all slug_char (slugify '' Big  Data 2026'') \<and>
   list_all (\<lambda>c. \<not> is_alnum c) (toLowerCase ''?! -'') \<and>
   slugify ''?! -'' = []"
proof -
  have h1: "list_all (\<lambda>(w, g). is_word w \<and> is_gap g) [(''big'', ''  ''), (''data'', '' '')]"
    by code_simp
  have h2: "is_word ''2026''" by code_simp
  have h3: "list_all isWhiteSpace '' ''" by code_simp
  have h4: "list_all isWhiteSpace []" by simp
  have h5: "toLowerCase '' Big  Data 2026'' =
     '' '' @ spaced [(''big'', ''  ''), (''data'', '' '')] ''2026'' @ []" by code_simp
  have h6: "list_all (\<lambda>c. \<not> is_alnum c) (toLowerCase ''?! -'')" by code_simp
  have d: "dashed [(''big'', ''  ''), (''data'', '' '')] ''2026'' = ''big-data-2026''" by simp
  note T = slugify_contract[where v = "'' Big  Data 2026''"
      and wgs = "[(''big'', ''  ''), (''data'', '' '')]" and lw = "''2026''"
      and pre = "'' ''" and post = "[]"]
  from T h1 h2 h3 h4 h5 have "slugify '' Big  Data 2026'' =
    dashed [(''big'', ''  ''), (''data'', '' '')] ''2026''" by blast
  with d have a: "slugify '' Big  Data 2026'' = ''big-data-2026''" by simp
  from T have b: "list_all slug_char (slugify '' Big  Data 2026'')" by blast
  from slugify_contract[where v = "''?! -''"] h6 have c: "slugify ''?! -'' = []" by blast
  from h1 h2 h3 h4 h5 a b h6 c show ?thesis by blast
qed

text \<open>
  C10. \<open>slugify\<close> is idempotent: applying it to one of its results, and so to any string
  that already has the shape of a slug, gives that string's slug again; this holds for
  every input.
\<close>

theorem slugify_idempotent: "slugify (slugify x) = slugify x"
  by (rule slugify_idem)

section \<open>Fetching an event by its slug\<close>

lemma normalizeAndValidateSlug_Some:
  "normalizeAndValidateSlug (Some raw) = Some s \<longleftrightarrow> s = toLowerCase (trim raw) \<and> slugPattern s"
  by (auto simp: normalizeAndValidateSlug_def Let_def slugPattern_def)

lemma findOne_slug_null: "findOne_slug store None = None"
  by (simp add: findOne_slug_def find_None_iff)

lemma findOne_slug_None: "findOne_slug store (Some s) = None \<longleftrightarrow> (\<forall>e\<in>set store. slug e \<noteq> s)"
  by (auto simp: findOne_slug_def find_None_iff)

lemma findOne_slug_distinct:
  "distinct (map slug store) \<Longrightarrow> e \<in> set store \<Longrightarrow> findOne_slug store (Some (slug e)) = Some e"
  unfolding findOne_slug_def
proof (induction store)
  case Nil
  then show ?case by simp
next
  case (Cons a store)
  then show ?case by (cases "slug a = slug e") auto
qed

lemma GET_status:
  "status (GET db params) = 200 \<or> status (GET db params) = 404 \<or> status (GET db params) = 500"
  by (simp add: GET_def connectToDatabase_def Event_findOne_def jsonError_def Let_def
      split: sum.splits option.splits)

text \<open>
  C4, as the specification states it, fails: with a database that cannot be connected to,
  the answer for a missing slug, and for a slug that is not valid, is 500 and not 404. The
  handler connects before it looks at the parameter.
\<close>

theorem GET_unreachable_counterexample:
  "status (GET \<lparr>connect_failure = Some (ConnectionError ''connect ECONNREFUSED''),
                find_failure = None, collection = []\<rparr> (Inr None)) = 500 \<and>
   normalizeAndValidateSlug (Some ''Not a slug!'') = None \<and>
   status (GET \<lparr>connect_failure = Some (ConnectionError ''connect ECONNREFUSED''),
                find_failure = None, collection = []\<rparr> (Inr (Some ''Not a slug!''))) = 500"
  by code_simp

text \<open>
  C4, amended. \<open>GET /api/events/[slug]\<close>. The slug is normalised by trimming and
  lower-casing and is valid when the result is a non-empty string over \<open>[a-z0-9-]\<close>.
  When connecting to the database fails, when the parameters cannot be read, or when the
  query fails, the answer is 500 with one fixed message that says nothing of the error; a
  failed connection gives 500 whatever the slug is, missing and invalid slugs included.
  With the connection made, the answer is 404 when the slug is missing, empty or blank;
  with the query answered as well, it is 404 when the slug is not valid or when no stored
  event has the normalised slug, and, the stored slugs being distinct (the unique index), it
  is 200 with exactly the event that has the normalised slug. An answer of 200 always
  carries a stored event whose slug is the normalised parameter, an answer of 500 always
  comes from one of the three failures, and no other status occurs.
\<close>

theorem GET_contract:
  "(connect_failure db \<noteq> None \<longrightarrow>
      GET db params =
        \<lparr>status = 500, body = ErrorBody ''Failed to fetch event. Please try again later.''\<rparr>) \<and>
   (connect_failure db = None \<longrightarrow>
      GET db (Inl err) =
        \<lparr>status = 500, body = ErrorBody ''Failed to fetch event. Please try again later.''\<rparr>) \<and>
   (connect_failure db = None \<and> trim raw \<noteq> [] \<and> find_failure db \<noteq> None \<longrightarrow>
      GET db (Inr (Some raw)) =
        \<lparr>status = 500, body = ErrorBody ''Failed to fetch event. Please try again later.''\<rparr>) \<and>
   (connect_failure db = None \<longrightarrow> status (GET db (Inr None)) = 404) \<and>
   (connect_failure db = None \<and> trim raw = [] \<longrightarrow>
      status (GET db (Inr (Some raw))) = 404) \<and>
   (normalizeAndValidateSlug (Some raw) = Some s
      \<longleftrightarrow> s = toLowerCase (trim raw) \<and> s \<noteq> [] \<and> list_all slug_char s) \<and>
   (connect_failure db = None \<and> find_failure db = None \<and>
    normalizeAndValidateSlug (Some raw) = None \<longrightarrow>
      status (GET db (Inr (Some raw))) = 404) \<and>
   (connect_failure db = None \<and> find_failure db = None \<and>
    normalizeAndValidateSlug (Some raw) = Some s \<and>
    \<not> list_ex (\<lambda>e. slug e = s) (collection db) \<longrightarrow>
      status (GET db (Inr (Some raw))) = 404) \<and>
   (connect_failure db = None \<and> find_failure db = None \<and>
    normalizeAndValidateSlug (Some raw) = Some s \<and> distinct (map slug (collection db)) \<and>
    e \<in> set (collection db) \<and> slug e = s \<longrightarrow>
      GET db (Inr (Some raw)) =
        \<lparr>status = 200, body = MessageEvent ''API fetched successfully'' e\<rparr>) \<and>
   (status (GET db params) = 200 \<longrightarrow>
      connect_failure db = None \<and> find_failure db = None \<and>
      (\<exists>raw' e'. params = Inr (Some raw') \<and> e' \<in> set (collection db) \<and>
         normalizeAndValidateSlug (Some raw') = Some (slug e') \<and>
         body (GET db params) = MessageEvent ''API fetched successfully'' e')) \<and>
   (status (GET db params) = 500 \<longrightarrow>
      body (GET db params) = ErrorBody ''Failed to fetch event. Please try again later.'' \<and>
      (connect_failure db \<noteq> None \<or> (\<exists>err'. params = Inl err') \<or> find_failure db \<noteq> None)) \<and>
   (status (GET db params) = 200 \<or> status (GET db params) = 404 \<or>
    status (GET db params) = 500)"
proof -
  have c1: "connect_failure db \<noteq> None \<longrightarrow>
      GET db params =
        \<lparr>status = 500, body = ErrorBody ''Failed to fetch event. Please try again later.''\<rparr>"
    by (auto simp: GET_def connectToDatabase_def jsonError_def)
  have c2: "connect_failure db = None \<longrightarrow>
      GET db (Inl err) =
        \<lparr>status = 500, body = ErrorBody ''Failed to fetch event. Please try again later.''\<rparr>"
    by (simp add: GET_def connectToDatabase_def jsonError_def)
  have c3: "connect_failure db = None \<and> trim raw \<noteq> [] \<and> find_failure db \<noteq> None \<longrightarrow>
      GET db (Inr (Some raw)) =
        \<lparr>status = 500, body = ErrorBody ''Failed to fetch event. Please try again later.''\<rparr>"
  proof
    assume h: "connect_failure db = None \<and> trim raw \<noteq> [] \<and> find_failure db \<noteq> None"
    then have "raw \<noteq> []" by (auto simp: trim_def)
    with h show "GET db (Inr (Some raw)) =
        \<lparr>status = 500, body = ErrorBody ''Failed to fetch event. Please try again later.''\<rparr>"
      by (auto simp: GET_def connectToDatabase_def Event_findOne_def jsonError_def Let_def)
  qed
  have c4: "connect_failure db = None \<longrightarrow> status (GET db (Inr None)) = 404"
    by (simp add: GET_def connectToDatabase_def jsonError_def)
  have c5: "connect_failure db = None \<and> trim raw = [] \<longrightarrow>
      status (GET db (Inr (Some raw))) = 404"
    by (simp add: GET_def connectToDatabase_def jsonError_def)
  have c6: "normalizeAndValidateSlug (Some raw) = Some s
      \<longleftrightarrow> s = toLowerCase (trim raw) \<and> s \<noteq> [] \<and> list_all slug_char s"
    by (auto simp: normalizeAndValidateSlug_Some slugPattern_def)
  have c7: "connect_failure db = None \<and> find_failure db = None \<and>
    normalizeAndValidateSlug (Some raw) = None \<longrightarrow>
      status (GET db (Inr (Some raw))) = 404"
    by (simp add: GET_def connectToDatabase_def Event_findOne_def jsonError_def Let_def
        findOne_slug_null)
  have c8: "connect_failure db = None \<and> find_failure db = None \<and>
    normalizeAndValidateSlug (Some raw) = Some s \<and>
    \<not> list_ex (\<lambda>e. slug e = s) (collection db) \<longrightarrow>
      status (GET db (Inr (Some raw))) = 404"
  proof
    assume h: "connect_failure db = None \<and> find_failure db = None \<and>
      normalizeAndValidateSlug (Some raw) = Some s \<and>
      \<not> list_ex (\<lambda>e. slug e = s) (collection db)"
    then have "findOne_slug (collection db) (Some s) = None"
      by (simp add: findOne_slug_None list_ex_iff)
    with h show "status (GET db (Inr (Some raw))) = 404"
      by (simp add: GET_def connectToDatabase_def Event_findOne_def jsonError_def Let_def)
  qed
  have c9: "connect_failure db = None \<and> find_failure db = None \<and>
    normalizeAndValidateSlug (Some raw) = Some s \<and> distinct (map slug (collection db)) \<and>
    e \<in> set (collection db) \<and> slug e = s \<longrightarrow>
      GET db (Inr (Some raw)) =
        \<lparr>status = 200, body = MessageEvent ''API fetched successfully'' e\<rparr>"
  proof
    assume h: "connect_failure db = None \<and> find_failure db = None \<and>
      normalizeAndValidateSlug (Some raw) = Some s \<and> distinct (map slug (collection db)) \<and>
      e \<in> set (collection db) \<and> slug e = s"
    then have f: "findOne_slug (collection db) (Some s) = Some e"
      using findOne_slug_distinct[of "collection db" e] by auto
    from h have "toLowerCase (trim raw) \<noteq> []" unfolding c6 by blast
    then have "trim raw \<noteq> []" by (auto simp: toLowerCase_def)
    then have "raw \<noteq> []" "trim raw \<noteq> []" by (auto simp: trim_def)
    with h f show "GET db (Inr (Some raw)) =
        \<lparr>status = 200, body = MessageEvent ''API fetched successfully'' e\<rparr>"
      by (simp add: GET_def connectToDatabase_def Event_findOne_def Let_def)
  qed
  have c10: "status (GET db params) = 200 \<longrightarrow>
      connect_failure db = None \<and> find_failure db = None \<and>
      (\<exists>raw' e'. params = Inr (Some raw') \<and> e' \<in> set (collection db) \<and>
         normalizeAndValidateSlug (Some raw') = Some (slug e') \<and>
         body (GET db params) = MessageEvent ''API fetched successfully'' e')"
  proof
    assume "status (GET db params) = 200"
    then obtain raw' e' where "connect_failure db = None" "find_failure db = None"
      "params = Inr (Some raw')"
      and f: "findOne_slug (collection db) (normalizeAndValidateSlug (Some raw')) = Some e'"
      and b: "body (GET db params) = MessageEvent ''API fetched successfully'' e'"
      by (auto simp: GET_def connectToDatabase_def Event_findOne_def jsonError_def Let_def
          split: sum.splits option.splits if_splits)
    moreover from f have "e' \<in> set (collection db)"
      and "normalizeAndValidateSlug (Some raw') = Some (slug e')"
      by (auto simp: findOne_slug_def find_Some_iff)
    ultimately show "connect_failure db = None \<and> find_failure db = None \<and>
      (\<exists>raw' e'. params = Inr (Some raw') \<and> e' \<in> set (collection db) \<and>
         normalizeAndValidateSlug (Some raw') = Some (slug e') \<and>
         body (GET db params) = MessageEvent ''API fetched successfully'' e')"
      by blast
  qed
  have c11: "status (GET db params) = 500 \<longrightarrow>
      body (GET db params) = ErrorBody ''Failed to fetch event. Please try again later.'' \<and>
      (connect_failure db \<noteq> None \<or> (\<exists>err'. params = Inl err') \<or> find_failure db \<noteq> None)"
    by (auto simp: GET_def connectToDatabase_def Event_findOne_def jsonError_def Let_def
        split: sum.splits option.splits if_splits)
  have c12: "status (GET db params) = 200 \<or> status (GET db params) = 404 \<or>
    status (GET db params) = 500"
    by (rule GET_status)
  show ?thesis
    by (intro conjI c1 c2 c3 c4 c5 c6 c7 c8 c9 c10 c11 c12)
qed

theorem GET_contract_witness:
  "connect_failure sample_database = None \<and> find_failure sample_database = None \<and>
   normalizeAndValidateSlug (Some '' Cloud-Next-2026 '') = Some ''cloud-next-2026'' \<and>
   distinct (map slug (collection sample_database)) \<and>
   sample_event \<in> set (collection sample_database) \<and>
   slug sample_event = ''cloud-next-2026'' \<and>
   GET sample_database (Inr (Some '' Cloud-Next-2026 '')) =
     \<lparr>status = 200, body = MessageEvent ''API fetched successfully'' sample_event\<rparr> \<and>
   normalizeAndValidateSlug (Some ''Cloud Next'') = None \<and>
   status (GET sample_database (Inr (Some ''Cloud Next''))) = 404 \<and>
   normalizeAndValidateSlug (Some ''web-summit'') = Some ''web-summit'' \<and>
   \<not> list_ex (\<lambda>e. slug e = ''web-summit'') (collection sample_database) \<and>
   status (GET sample_database (Inr (Some ''web-summit''))) = 404 \<and>
   trim ''  '' = [] \<and> status (GET sample_database (Inr (Some ''  ''))) = 404 \<and>
   status (GET sample_database (Inr None)) = 404 \<and>
   connect_failure (sample_database\<lparr>connect_failure := Some (ConnectionError ''down'')\<rparr>) \<noteq> None \<and>
   GET (sample_database\<lparr>connect_failure := Some (ConnectionError ''down'')\<rparr>)
       (Inr (Some '' Cloud-Next-2026 '')) =
     \<lparr>status = 500, body = ErrorBody ''Failed to fetch event. Please try again later.''\<rparr> \<and>
   connect_failure (sample_database\<lparr>find_failure := Some (ConnectionError ''lost'')\<rparr>) = None \<and>
   find_failure (sample_database\<lparr>find_failure := Some (ConnectionError ''lost'')\<rparr>) \<noteq> None \<and>
   trim '' Cloud-Next-2026 '' \<noteq> [] \<and>
   GET (sample_database\<lparr>find_failure := Some (ConnectionError ''lost'')\<rparr>)
       (Inr (Some '' Cloud-Next-2026 '')) =
     \<lparr>status = 500, body = ErrorBody ''Failed to fetch event. Please try again later.''\<rparr>"
proof -
  let ?down = "sample_database\<lparr>connect_failure := Some (ConnectionError ''down'')\<rparr>"
  let ?lost = "sample_database\<lparr>find_failure := Some (ConnectionError ''lost'')\<rparr>"
  have k1: "connect_failure sample_database = None" by (simp add: sample_database_def)
  have k2: "find_failure sample_database = None" by (simp add: sample_database_def)
  have k3: "collection sample_database = [sample_event]" by (simp add: sample_database_def)
  have h1: "normalizeAndValidateSlug (Some '' Cloud-Next-2026 '') = Some ''cloud-next-2026''"
    by code_simp
  have h2: "distinct (map slug (collection sample_database))" by (simp add: k3)
  have h3: "sample_event \<in> set (collection sample_database)" by (simp add: k3)
  have h4: "slug sample_event = ''cloud-next-2026''" by (simp add: sample_event_def)
  have h5: "normalizeAndValidateSlug (Some ''Cloud Next'') = None" by code_simp
  have h6: "normalizeAndValidateSlug (Some ''web-summit'') = Some ''web-summit''" by code_simp
  have h7: "\<not> list_ex (\<lambda>e. slug e = ''web-summit'') (collection sample_database)"
    by (simp add: k3 sample_event_def)
  have h8: "trim ''  '' = []" by code_simp
  have h9: "connect_failure ?down \<noteq> None" by simp
  have h10: "find_failure ?lost \<noteq> None" by simp
  have h11: "connect_failure ?lost = None" by (simp add: sample_database_def)
  have h12: "trim '' Cloud-Next-2026 '' \<noteq> []" by code_simp
  from k1 k2 h1 h2 h3 h4
  have a: "GET sample_database (Inr (Some '' Cloud-Next-2026 '')) =
     \<lparr>status = 200, body = MessageEvent ''API fetched successfully'' sample_event\<rparr>"
    by (intro GET_contract[where db = sample_database and raw = "'' Cloud-Next-2026 ''"
          and s = "''cloud-next-2026''" and e = sample_event, THEN conjunct2, THEN conjunct2, THEN conjunct2, THEN conjunct2, THEN conjunct2, THEN conjunct2, THEN conjunct2, THEN conjunct2, THEN conjunct1, THEN mp] conjI)
  from k1 k2 h5
  have b: "status (GET sample_database (Inr (Some ''Cloud Next''))) = 404"
    by (intro GET_contract[where db = sample_database and raw = "''Cloud Next''", THEN conjunct2, THEN conjunct2, THEN conjunct2, THEN conjunct2, THEN conjunct2, THEN conjunct2, THEN conjunct1, THEN mp] conjI)
  from k1 k2 h6 h7
  have c: "status (GET sample_database (Inr (Some ''web-summit''))) = 404"
    by (intro GET_contract[where db = sample_database and raw = "''web-summit''"
          and s = "''web-summit''", THEN conjunct2, THEN conjunct2, THEN conjunct2, THEN conjunct2, THEN conjunct2, THEN conjunct2, THEN conjunct2, THEN conjunct1, THEN mp] conjI)
  from k1 h8
  have d: "status (GET sample_database (Inr (Some ''  ''))) = 404"
    by (intro GET_contract[where db = sample_database and raw = "''  ''", THEN conjunct2, THEN conjunct2, THEN conjunct2, THEN conjunct2, THEN conjunct1, THEN mp] conjI)
  from k1
  have e: "status (GET sample_database (Inr None)) = 404"
    by (intro GET_contract[where db = sample_database, THEN conjunct2, THEN conjunct2, THEN conjunct2, THEN conjunct1, THEN mp])
  from h9
  have f: "GET ?down (Inr (Some '' Cloud-Next-2026 '')) =
     \<lparr>status = 500, body = ErrorBody ''Failed to fetch event. Please try again later.''\<rparr>"
    by (intro GET_contract[where db = ?down, THEN conjunct1, THEN mp])
  from h11 h12 h10
  have g: "GET ?lost (Inr (Some '' Cloud-Next-2026 '')) =
     \<lparr>status = 500, body = ErrorBody ''Failed to fetch event. Please try again later.''\<rparr>"
    by (intro GET_contract[where db = ?lost and raw = "'' Cloud-Next-2026 ''", THEN conjunct2, THEN conjunct2, THEN conjunct1, THEN mp] conjI)
  show ?thesis
    by (intro conjI k1 k2 h1 h2 h3 h4 a h5 b h6 h7 c h8 d e h9 f h11 h10 h12 g)
qed

section \<open>Creating an event over HTTP\<close>

lemma Object_fromEntries_total: "\<exists>obj. Object_fromEntries entries = Inr obj"
  by (simp add: Object_fromEntries_def)

lemma POST_created:
  assumes "Event_create D store (cast_event (map_of (rev entries))) = Inr (store', ev)"
  shows "POST D (Inr store) \<lparr>form_body = Inr entries\<rparr> =
    (\<lparr>status = 201, body = MessageEvent ''Event created successfully'' ev\<rparr>, Some store')"
  using assms by (simp add: POST_def formData_def Object_fromEntries_def)

lemma POST_rejected:
  assumes "Event_create D store (cast_event (map_of (rev entries))) = Inl e"
  shows "POST D (Inr store) \<lparr>form_body = Inr entries\<rparr> =
    (\<lparr>status = 500, body = MessageError ''Event Creation Failed'' (message e)\<rparr>, Some store)"
  using assms by (simp add: POST_def formData_def Object_fromEntries_def creation_failed_def)

lemma POST_sample:
  "POST sample_date (Inr []) \<lparr>form_body = Inr sample_form\<rparr> =
    (\<lparr>status = 201, body = MessageEvent ''Event created successfully'' sample_event\<rparr>,
     Some [sample_event])"
  by code_simp

text \<open>
  C3. \<open>POST /api/events\<close> answers 201 with the created event when the creation succeeds
  and 500 with the message of the exception when it fails (the two lemmas above). For a
  body that cannot be read as form data the specification asks for 400. The handler answers
  500 there, with the message of the runtime's \<open>TypeError\<close>: \<open>req.formData()\<close> is awaited
  outside the inner \<open>try\<close>, which guards only \<open>Object.fromEntries\<close>, so the rejection
  reaches the outer \<open>catch\<close>; and no request at all is answered with 400.
\<close>

theorem POST_malformed_body:
  "POST D (Inr store) \<lparr>form_body = Inl msg\<rparr> =
     (\<lparr>status = 500, body = MessageError ''Event Creation Failed'' msg\<rparr>, Some store) \<and>
   status (fst (POST D conn req)) \<noteq> 400"
proof
  show "POST D (Inr store) \<lparr>form_body = Inl msg\<rparr> =
     (\<lparr>status = 500, body = MessageError ''Event Creation Failed'' msg\<rparr>, Some store)"
    by (simp add: POST_def formData_def creation_failed_def)
  show "status (fst (POST D conn req)) \<noteq> 400"
    by (simp add: POST_def creation_failed_def Object_fromEntries_def
        split: sum.splits prod.splits)
qed

section \<open>The two email patterns\<close>

lemma takeWhile_until: "c \<notin> set l \<Longrightarrow> takeWhile (\<lambda>x. x \<noteq> c) (l @ c # r) = l"
  by (induction l) auto

lemma dropWhile_until: "c \<notin> set l \<Longrightarrow> dropWhile (\<lambda>x. x \<noteq> c) (l @ c # r) = c # r"
  by (induction l) auto

lemma split_first_iff: "split_first c s = Some (l, r) \<longleftrightarrow> s = l @ c # r \<and> c \<notin> set l"
proof
  assume "split_first c s = Some (l, r)"
  then obtain x where d: "dropWhile (\<lambda>x. x \<noteq> c) s = x # r" and l: "l = takeWhile (\<lambda>x. x \<noteq> c) s"
    by (auto simp: split_first_def split: list.splits)
  from d have "dropWhile (\<lambda>x. x \<noteq> c) s \<noteq> []" by simp
  then have "\<not> (hd (dropWhile (\<lambda>x. x \<noteq> c) s) \<noteq> c)"
    by (rule hd_dropWhile)
  with d have "x = c" by simp
  moreover have "s = takeWhile (\<lambda>x. x \<noteq> c) s @ dropWhile (\<lambda>x. x \<noteq> c) s" by simp
  moreover have "c \<notin> set (takeWhile (\<lambda>x. x \<noteq> c) s)" by (auto dest: set_takeWhileD)
  ultimately show "s = l @ c # r \<and> c \<notin> set l" using d l by metis
next
  assume h: "s = l @ c # r \<and> c \<notin> set l"
  then have "takeWhile (\<lambda>x. x \<noteq> c) s = l" "dropWhile (\<lambda>x. x \<noteq> c) s = c # r"
    by (simp_all add: takeWhile_until dropWhile_until)
  then show "split_first c s = Some (l, r)" by (simp add: split_first_def)
qed

lemma split_last_iff: "split_last c s = Some (d, t) \<longleftrightarrow> s = d @ c # t \<and> c \<notin> set t"
proof
  assume "split_last c s = Some (d, t)"
  then obtain t' d' where "split_first c (rev s) = Some (t', d')" "d = rev d'" "t = rev t'"
    by (auto simp: split_last_def split: option.splits)
  then have "rev s = t' @ c # d'" "c \<notin> set t'" "d = rev d'" "t = rev t'"
    by (auto simp: split_first_iff)
  then have "rev (rev s) = rev (t' @ c # d')" by simp
  then show "s = d @ c # t \<and> c \<notin> set t"
    using \<open>c \<notin> set t'\<close> \<open>d = rev d'\<close> \<open>t = rev t'\<close> by simp
next
  assume "s = d @ c # t \<and> c \<notin> set t"
  then have "split_first c (rev s) = Some (rev t, rev d)"
    by (simp add: split_first_iff)
  then show "split_last c s = Some (d, t)" by (simp add: split_last_def)
qed

lemma local_char_not_at: "local_char c \<Longrightarrow> c \<noteq> CHR ''@''"
  by (auto simp: local_char_def is_az_def is_AZ_def is_digit_def)

lemma letter_char_not_dot: "letter_char c \<Longrightarrow> c \<noteq> CHR ''.''"
  by (auto simp: letter_char_def is_az_def is_AZ_def)

lemma local_char_plain: "local_char c \<Longrightarrow> plain_char c"
  by (auto simp: local_char_def plain_char_def is_az_def is_AZ_def is_digit_def isWhiteSpace_def)

lemma domain_char_plain: "domain_char c \<Longrightarrow> plain_char c"
  by (auto simp: domain_char_def plain_char_def is_az_def is_AZ_def is_digit_def isWhiteSpace_def)

lemma letter_char_plain: "letter_char c \<Longrightarrow> plain_char c"
  by (auto simp: letter_char_def plain_char_def is_az_def is_AZ_def isWhiteSpace_def)

lemma dot_plain: "plain_char (CHR ''.'')"
  by (simp add: plain_char_def isWhiteSpace_def)

lemma validator_emailRegex_iff:
  "validator_emailRegex s \<longleftrightarrow>
   (\<exists>l d t. s = l @ ''@'' @ d @ ''.'' @ t \<and>
      l \<noteq> [] \<and> list_all local_char l \<and> d \<noteq> [] \<and> list_all domain_char d \<and>
      2 \<le> length t \<and> list_all letter_char t)"
proof
  assume "validator_emailRegex s"
  then obtain l r d t where "split_first (CHR ''@'') s = Some (l, r)"
    "split_last (CHR ''.'') r = Some (d, t)"
    "l \<noteq> []" "list_all local_char l" "d \<noteq> []" "list_all domain_char d"
    "2 \<le> length t" "list_all letter_char t"
    by (auto simp: validator_emailRegex_def split: option.splits)
  then show "\<exists>l d t. s = l @ ''@'' @ d @ ''.'' @ t \<and>
      l \<noteq> [] \<and> list_all local_char l \<and> d \<noteq> [] \<and> list_all domain_char d \<and>
      2 \<le> length t \<and> list_all letter_char t"
    by (auto simp: split_first_iff split_last_iff)
next
  assume "\<exists>l d t. s = l @ ''@'' @ d @ ''.'' @ t \<and>
      l \<noteq> [] \<and> list_all local_char l \<and> d \<noteq> [] \<and> list_all domain_char d \<and>
      2 \<le> length t \<and> list_all letter_char t"
  then obtain l d t where s: "s = l @ CHR ''@'' # (d @ CHR ''.'' # t)"
    and c: "l \<noteq> []" "list_all local_char l" "d \<noteq> []" "list_all domain_char d"
      "2 \<le> length t" "list_all letter_char t"
    by auto
  from c have "CHR ''@'' \<notin> set l" by (auto simp: list_all_iff dest: local_char_not_at)
  with s have 1: "split_first (CHR ''@'') s = Some (l, d @ CHR ''.'' # t)"
    by (simp add: split_first_iff)
  from c have "CHR ''.'' \<notin> set t" by (auto simp: list_all_iff dest: letter_char_not_dot)
  then have 2: "split_last (CHR ''.'') (d @ CHR ''.'' # t) = Some (d, t)"
    by (simp add: split_last_iff)
  from 1 2 c show "validator_emailRegex s" by (simp add: validator_emailRegex_def)
qed

lemma inner_dot_iff:
  "CHR ''.'' \<in> set (butlast (tl r)) \<longleftrightarrow> (\<exists>d t. r = d @ ''.'' @ t \<and> d \<noteq> [] \<and> t \<noteq> [])"
proof
  assume h: "CHR ''.'' \<in> set (butlast (tl r))"
  then obtain m1 m2 where m: "butlast (tl r) = m1 @ CHR ''.'' # m2"
    by (auto dest: split_list)
  then have "tl r \<noteq> []" by auto
  then have tl: "tl r = butlast (tl r) @ [last (tl r)]" by simp
  from \<open>tl r \<noteq> []\<close> have "r = hd r # tl r" by (cases r) auto
  with tl m have "r = (hd r # m1) @ ''.'' @ (m2 @ [last (tl r)])" by simp
  then show "\<exists>d t. r = d @ ''.'' @ t \<and> d \<noteq> [] \<and> t \<noteq> []" by blast
next
  assume "\<exists>d t. r = d @ ''.'' @ t \<and> d \<noteq> [] \<and> t \<noteq> []"
  then obtain d t where r: "r = d @ ''.'' @ t" and "d \<noteq> []" "t \<noteq> []" by blast
  then obtain a d' b t' where "d = a # d'" "t = t' @ [b]"
    by (metis neq_Nil_conv rev_exhaust)
  with r have "butlast (tl r) = d' @ CHR ''.'' # t'"
    by (simp add: butlast_append)
  then show "CHR ''.'' \<in> set (butlast (tl r))" by simp
qed

lemma emailRegex_iff:
  "emailRegex s \<longleftrightarrow>
   (\<exists>l d t. s = l @ ''@'' @ d @ ''.'' @ t \<and>
      l \<noteq> [] \<and> list_all plain_char l \<and> d \<noteq> [] \<and> list_all plain_char d \<and>
      t \<noteq> [] \<and> list_all plain_char t)"
proof
  assume "emailRegex s"
  then obtain l r where "split_first (CHR ''@'') s = Some (l, r)"
    "l \<noteq> []" "list_all plain_char l" "list_all plain_char r"
    "CHR ''.'' \<in> set (butlast (tl r))"
    by (auto simp: emailRegex_def split: option.splits)
  moreover then obtain d t where "r = d @ ''.'' @ t" "d \<noteq> []" "t \<noteq> []"
    by (auto simp: inner_dot_iff)
  ultimately show "\<exists>l d t. s = l @ ''@'' @ d @ ''.'' @ t \<and>
      l \<noteq> [] \<and> list_all plain_char l \<and> d \<noteq> [] \<and> list_all plain_char d \<and>
      t \<noteq> [] \<and> list_all plain_char t"
    by (auto simp: split_first_iff)
next
  assume "\<exists>l d t. s = l @ ''@'' @ d @ ''.'' @ t \<and>
      l \<noteq> [] \<and> list_all plain_char l \<and> d \<noteq> [] \<and> list_all plain_char d \<and>
      t \<noteq> [] \<and> list_all plain_char t"
  then obtain l d t where s: "s = l @ CHR ''@'' # (d @ ''.'' @ t)"
    and c: "l \<noteq> []" "list_all plain_char l" "d \<noteq> []" "list_all plain_char d"
      "t \<noteq> []" "list_all plain_char t"
    by auto
  from c have "CHR ''@'' \<notin> set l" by (auto simp: list_all_iff plain_char_def)
  with s have 1: "split_first (CHR ''@'') s = Some (l, d @ ''.'' @ t)"
    by (simp add: split_first_iff)
  from c have 2: "CHR ''.'' \<in> set (butlast (tl (d @ ''.'' @ t)))"
    unfolding inner_dot_iff by blast
  from c have 3: "list_all plain_char (d @ ''.'' @ t)" by (simp add: dot_plain)
  from 1 2 3 c show "emailRegex s" by (simp add: emailRegex_def)
qed

lemma validator_imp_emailRegex: "validator_emailRegex s \<Longrightarrow> emailRegex s"
proof -
  assume "validator_emailRegex s"
  then obtain l d t where "s = l @ ''@'' @ d @ ''.'' @ t"
    "l \<noteq> []" "list_all local_char l" "d \<noteq> []" "list_all domain_char d"
    "2 \<le> length t" "list_all letter_char t"
    unfolding validator_emailRegex_iff by blast
  moreover then have "list_all plain_char l" "list_all plain_char d" "list_all plain_char t" "t \<noteq> []"
    by (auto simp: list_all_iff dest: local_char_plain domain_char_plain letter_char_plain)
  ultimately show ?thesis unfolding emailRegex_iff by blast
qed

lemma space_toLowerChar: "isWhiteSpace (toLowerChar c) = isWhiteSpace c"
  by (auto simp: toLowerChar_def isUpper_def isWhiteSpace_def Let_def)

lemma dropWhile_space_lower:
  "dropWhile isWhiteSpace (toLowerCase s) = toLowerCase (dropWhile isWhiteSpace s)"
  by (induction s) (auto simp: toLowerCase_def space_toLowerChar)

lemma trim_toLowerCase: "trim (toLowerCase s) = toLowerCase (trim s)"
proof -
  have r: "rev (toLowerCase x) = toLowerCase (rev x)" for x
    by (simp add: toLowerCase_def rev_map)
  show ?thesis by (simp add: trim_def dropWhile_space_lower r)
qed

section \<open>Creating a booking\<close>

lemma normalized_email_idem: "toLowerCase (trim (normalized_email e)) = normalized_email e"
proof -
  have "toLowerCase (trim (toLowerCase (trim e))) = toLowerCase (toLowerCase (trim (trim e)))"
    by (simp only: trim_toLowerCase)
  then show ?thesis by (simp add: normalized_email_def toLowerCase_idem trim_trim)
qed

lemma validator_not_empty: "\<not> validator_emailRegex []"
  by (simp add: validator_emailRegex_def split_first_def)

lemma setters_email:
  "doc_email d = Some e \<Longrightarrow> doc_email (bookingSchema_setters d) = Some (normalized_email e)"
  by (simp add: bookingSchema_setters_def normalized_email_def trim_toLowerCase)

lemma setters_eventId: "doc_eventId (bookingSchema_setters d) = doc_eventId d"
  by (simp add: bookingSchema_setters_def)

lemma booking_validate_cases:
  assumes "doc_eventId d = Some i" "doc_email d = Some e"
  shows "bookingSchema_validate (bookingSchema_setters d) =
    (if normalized_email e = [] then
       Inl (ValidationError ''Booking validation failed: email: Email is required '')
     else if \<not> validator_emailRegex (normalized_email e) then
       Inl (ValidationError (''Booking validation failed: email: '' @ normalized_email e @
              '' is not a valid email address!''))
     else Inr \<lparr>eventId = i, email = normalized_email e\<rparr>)"
  using assms by (simp add: bookingSchema_validate_def setters_email setters_eventId)

lemma booking_preSave_cases:
  assumes "validator_emailRegex (normalized_email e)"
  shows "booking_preSave events \<lparr>eventId = i, email = normalized_email e\<rparr> =
    (if \<not> Event_exists events i
     then Inl (ReferenceError ''Cannot create booking: referenced event does not exist.'')
     else Inr \<lparr>eventId = i, email = normalized_email e\<rparr>,
     [Event_exists_query i])"
  using validator_imp_emailRegex[OF assms]
  by (simp add: booking_preSave_def Let_def normalized_email_idem)

lemma Booking_create_run_cases:
  assumes "doc_eventId d = Some i" "doc_email d = Some e"
  shows "Booking_create_run events store d =
    (if normalized_email e = [] then
       (Inl (ValidationError ''Booking validation failed: email: Email is required ''), [])
     else if \<not> validator_emailRegex (normalized_email e) then
       (Inl (ValidationError (''Booking validation failed: email: '' @ normalized_email e @
              '' is not a valid email address!'')), [])
     else if \<not> Event_exists events i
     then (Inl (ReferenceError ''Cannot create booking: referenced event does not exist.''),
           [Event_exists_query i])
     else (Inr (insert_booking store \<lparr>eventId = i, email = normalized_email e\<rparr>),
           [Event_exists_query i,
            Booking_insert (snd (insert_booking store
              \<lparr>eventId = i, email = normalized_email e\<rparr>))]))"
  using assms
  by (simp add: Booking_create_run_def booking_validate_cases booking_preSave_cases Let_def)

lemma Booking_create_cases:
  assumes "doc_eventId d = Some i" "doc_email d = Some e"
  shows "Booking_create events store d =
    (if normalized_email e = [] then
       Inl (ValidationError ''Booking validation failed: email: Email is required '')
     else if \<not> validator_emailRegex (normalized_email e) then
       Inl (ValidationError (''Booking validation failed: email: '' @ normalized_email e @
              '' is not a valid email address!''))
     else if \<not> Event_exists events i
     then Inl (ReferenceError ''Cannot create booking: referenced event does not exist.'')
     else Inr (insert_booking store \<lparr>eventId = i, email = normalized_email e\<rparr>))"
  by (simp add: Booking_create_def Booking_create_run_cases[OF assms])

lemma Booking_create_actions_cases:
  assumes "doc_eventId d = Some i" "doc_email d = Some e"
  shows "Booking_create_actions events store d =
    (if normalized_email e = [] \<or> \<not> validator_emailRegex (normalized_email e) then []
     else if \<not> Event_exists events i then [Event_exists_query i]
     else [Event_exists_query i,
           Booking_insert (snd (insert_booking store
             \<lparr>eventId = i, email = normalized_email e\<rparr>))])"
  by (simp add: Booking_create_actions_def Booking_create_run_cases[OF assms])

lemma Booking_create_run_missing:
  assumes "doc_eventId d = None \<or> doc_email d = None"
  shows "\<exists>m. Booking_create_run events store d = (Inl (ValidationError m), [])"
  using assms
  by (auto simp: Booking_create_run_def bookingSchema_validate_def bookingSchema_setters_def
      split: option.splits)

lemma Booking_create_missing:
  assumes "doc_eventId d = None \<or> doc_email d = None"
  shows "\<exists>m. Booking_create events store d = Inl (ValidationError m)"
  using Booking_create_run_missing[OF assms, of events store]
  by (auto simp: Booking_create_def)

lemma insert_booking_fields:
  "insert_booking store b = (store', c) \<Longrightarrow>
   store' = store @ [c] \<and> eventId c = eventId b \<and> email c = email b"
  by (auto simp: insert_booking_def Let_def BookingAttrs.defs)

text \<open>
  C2, as the specification states it, fails: \<open>a@b.c\<close> is already trimmed and lower-case and
  matches the simple pattern \<open>^[^\s@]+@[^\s@]+\.[^\s@]+$\<close>, the event it refers to exists,
  and the create still fails with a validation error, raised by the validator of the
  \<open>email\<close> path, whose pattern wants a top-level domain of two letters or more.
\<close>

theorem booking_email_counterexample:
  "emailRegex (toLowerCase (trim ''a@b.c'')) \<and>
   Event_exists [sample_event] 1 \<and>
   Booking_create [sample_event] [] \<lparr>doc_eventId = Some 1, doc_email = Some ''a@b.c''\<rparr> =
     Inl (ValidationError
       ''Booking validation failed: email: a@b.c is not a valid email address!'')"
  by code_simp

text \<open>
  C2, amended. On every create of a booking that has an event id and an email, the email is
  normalised to its trimmed lower-case form, and the create fails with a validation error
  exactly when the normalised email does not match the pattern of the schema validator,
  \<open>^[a-zA-Z0-9._%+-]+@[a-zA-Z0-9.-]+\.[a-zA-Z]{2,}$\<close>. Every string that matches it also
  matches the simple pattern the hook tests afterwards, so an email that fails the simple
  pattern is rejected too. On success the stored email is the trimmed lower-case form;
  \<open>A@B.COM\<close> is stored as \<open>a@b.com\<close>.
\<close>

theorem booking_email_validation:
  "(doc_eventId d = Some i \<and> doc_email d = Some e \<longrightarrow>
      ((\<exists>m. Booking_create events store d = Inl (ValidationError m))
         \<longleftrightarrow> \<not> validator_emailRegex (toLowerCase (trim e))) \<and>
      (\<forall>store' b. Booking_create events store d = Inr (store', b) \<longrightarrow>
         email b = toLowerCase (trim e) \<and> validator_emailRegex (email b) \<and>
         emailRegex (email b))) \<and>
   (validator_emailRegex x \<longrightarrow> emailRegex x) \<and>
   (\<not> emailRegex (toLowerCase (trim e)) \<longrightarrow> \<not> validator_emailRegex (toLowerCase (trim e))) \<and>
   Booking_create [sample_event] [] \<lparr>doc_eventId = Some 1, doc_email = Some ''A@B.COM''\<rparr> =
     Inr ([sample_booking], sample_booking) \<and>
   email sample_booking = ''a@b.com''"
proof -
  have main: "((\<exists>m. Booking_create events store d = Inl (ValidationError m))
         \<longleftrightarrow> \<not> validator_emailRegex (toLowerCase (trim e))) \<and>
      (\<forall>store' b. Booking_create events store d = Inr (store', b) \<longrightarrow>
         email b = toLowerCase (trim e) \<and> validator_emailRegex (email b) \<and>
         emailRegex (email b))"
    if h: "doc_eventId d = Some i \<and> doc_email d = Some e"
  proof -
    from h have c: "Booking_create events store d =
      (if normalized_email e = [] then
         Inl (ValidationError ''Booking validation failed: email: Email is required '')
       else if \<not> validator_emailRegex (normalized_email e) then
         Inl (ValidationError (''Booking validation failed: email: '' @ normalized_email e @
                '' is not a valid email address!''))
       else if \<not> Event_exists events i
       then Inl (ReferenceError ''Cannot create booking: referenced event does not exist.'')
       else Inr (insert_booking store \<lparr>eventId = i, email = normalized_email e\<rparr>))"
      by (intro Booking_create_cases) simp_all
    have n: "normalized_email e = toLowerCase (trim e)" by (simp add: normalized_email_def)
    have 1: "(\<exists>m. Booking_create events store d = Inl (ValidationError m))
         \<longleftrightarrow> \<not> validator_emailRegex (toLowerCase (trim e))"
      using validator_not_empty by (auto simp: c n)
    have 2: "email b = toLowerCase (trim e) \<and> validator_emailRegex (email b) \<and>
         emailRegex (email b)"
      if "Booking_create events store d = Inr (store', b)" for store' b
    proof -
      from that have v: "validator_emailRegex (normalized_email e)"
        and "insert_booking store \<lparr>eventId = i, email = normalized_email e\<rparr> = (store', b)"
        by (auto simp: c split: if_splits)
      from insert_booking_fields[OF this(2)] have "email b = normalized_email e" by simp
      with v validator_imp_emailRegex[OF v] show ?thesis by (simp add: n)
    qed
    from 1 2 show ?thesis by blast
  qed
  have ex: "Booking_create [sample_event] [] \<lparr>doc_eventId = Some 1, doc_email = Some ''A@B.COM''\<rparr> =
     Inr ([sample_booking], sample_booking)"
    by code_simp
  have ex2: "email sample_booking = ''a@b.com''" by (simp add: sample_booking_def)
  from main validator_imp_emailRegex[of x] validator_imp_emailRegex[of "toLowerCase (trim e)"]
    ex ex2
  show ?thesis by blast
qed

theorem booking_email_validation_witness:
  "doc_eventId \<lparr>doc_eventId = Some 1, doc_email = Some '' Ada@Example.ORG ''\<rparr> = Some 1 \<and>
   doc_email \<lparr>doc_eventId = Some 1, doc_email = Some '' Ada@Example.ORG ''\<rparr> =
     Some '' Ada@Example.ORG '' \<and>
   validator_emailRegex (toLowerCase (trim '' Ada@Example.ORG '')) \<and>
   emailRegex (toLowerCase (trim '' Ada@Example.ORG '')) \<and>
   \<not> (\<exists>m. Booking_create [sample_event] []
          \<lparr>doc_eventId = Some 1, doc_email = Some '' Ada@Example.ORG ''\<rparr> =
        Inl (ValidationError m)) \<and>
   \<not> emailRegex (toLowerCase (trim ''ada at example.org'')) \<and>
   (\<exists>m. Booking_create [sample_event] []
          \<lparr>doc_eventId = Some 1, doc_email = Some ''ada at example.org''\<rparr> =
        Inl (ValidationError m))"
proof -
  let ?d = "\<lparr>doc_eventId = Some 1, doc_email = Some '' Ada@Example.ORG ''\<rparr>"
  let ?d' = "\<lparr>doc_eventId = Some 1, doc_email = Some ''ada at example.org''\<rparr>"
  have h1: "doc_eventId ?d = Some 1" by simp
  have h2: "doc_email ?d = Some '' Ada@Example.ORG ''" by simp
  have h3: "validator_emailRegex (toLowerCase (trim '' Ada@Example.ORG ''))" by code_simp
  have h4: "doc_eventId ?d' = Some 1" by simp
  have h5: "doc_email ?d' = Some ''ada at example.org''" by simp
  have h6: "\<not> emailRegex (toLowerCase (trim ''ada at example.org''))" by code_simp
  note T = booking_email_validation[where d = ?d and i = 1 and e = "'' Ada@Example.ORG ''"
      and events = "[sample_event]" and store = "[]"
      and x = "toLowerCase (trim '' Ada@Example.ORG '')"]
  from T h1 h2 h3 have a: "\<not> (\<exists>m. Booking_create [sample_event] [] ?d = Inl (ValidationError m))"
    by blast
  from T h3 have b: "emailRegex (toLowerCase (trim '' Ada@Example.ORG ''))" by blast
  note T' = booking_email_validation[where d = ?d' and i = 1 and e = "''ada at example.org''"
      and events = "[sample_event]" and store = "[]"]
  from T' h4 h5 h6 have c: "\<exists>m. Booking_create [sample_event] [] ?d' = Inl (ValidationError m)"
    by blast
  from h1 h2 h3 b a h6 c show ?thesis by blast
qed

text \<open>
  C1, as the specification states it, fails: no event has the id 7, and the create of a
  booking for it with the email \<open>not-an-email\<close> fails with a validation error, not with
  the reference error; the email is checked before the event is looked up.
\<close>

theorem booking_reference_counterexample:
  "\<not> Event_exists [] 7 \<and>
   Booking_create [] [] \<lparr>doc_eventId = Some 7, doc_email = Some ''not-an-email''\<rparr> =
     Inl (ValidationError
       ''Booking validation failed: email: not-an-email is not a valid email address!'')"
  by code_simp

text \<open>
  C1, amended. On every create of a booking that has an event id and whose email passes
  validation, the Event store is asked whether an event has the id, before anything is
  inserted; the create fails with the reference error exactly when no stored event has that
  id, and then nothing is inserted; when the event exists the booking is persisted with
  the normalised email, the insert coming after the query. A create whose email fails
  validation fails with a validation error without the Event store being asked, whether or
  not the event exists. For every create: a reference error is raised only for an id no
  event has, a booking is persisted only for an id some event has and only after the query
  for it, and a create for an id no event has fails.
\<close>

theorem booking_reference_check:
  "(doc_eventId d = Some i \<and> doc_email d = Some e \<and>
    validator_emailRegex (toLowerCase (trim e)) \<longrightarrow>
      (Booking_create events store d =
         Inl (ReferenceError ''Cannot create booking: referenced event does not exist.'')
       \<longleftrightarrow> \<not> Event_exists events i) \<and>
      (\<not> Event_exists events i \<longrightarrow>
         Booking_create_actions events store d = [Event_exists_query i]) \<and>
      (Event_exists events i \<longrightarrow>
         Booking_create events store d =
           Inr (insert_booking store \<lparr>eventId = i, email = toLowerCase (trim e)\<rparr>) \<and>
         Booking_create_actions events store d =
           [Event_exists_query i,
            Booking_insert (snd (insert_booking store
              \<lparr>eventId = i, email = toLowerCase (trim e)\<rparr>))])) \<and>
   (doc_email d = Some e \<and> \<not> validator_emailRegex (toLowerCase (trim e)) \<longrightarrow>
      (\<exists>m. Booking_create events store d = Inl (ValidationError m)) \<and>
      Booking_create_actions events store d = []) \<and>
   (\<forall>m. Booking_create events store d = Inl (ReferenceError m) \<longrightarrow>
      (\<exists>j. doc_eventId d = Some j \<and> \<not> Event_exists events j)) \<and>
   (\<forall>store' b. Booking_create events store d = Inr (store', b) \<longrightarrow>
      store' = store @ [b] \<and> doc_eventId d = Some (eventId b) \<and>
      Event_exists events (eventId b) \<and>
      Booking_create_actions events store d =
        [Event_exists_query (eventId b), Booking_insert b]) \<and>
   (doc_eventId d = Some i \<and> \<not> Event_exists events i \<longrightarrow>
      (\<exists>err. Booking_create events store d = Inl err))"
proof -
  have n: "normalized_email x = toLowerCase (trim x)" for x by (simp add: normalized_email_def)
  have p1: "(Booking_create events store d =
         Inl (ReferenceError ''Cannot create booking: referenced event does not exist.'')
       \<longleftrightarrow> \<not> Event_exists events i) \<and>
      (\<not> Event_exists events i \<longrightarrow>
         Booking_create_actions events store d = [Event_exists_query i]) \<and>
      (Event_exists events i \<longrightarrow>
         Booking_create events store d =
           Inr (insert_booking store \<lparr>eventId = i, email = toLowerCase (trim e)\<rparr>) \<and>
         Booking_create_actions events store d =
           [Event_exists_query i,
            Booking_insert (snd (insert_booking store
              \<lparr>eventId = i, email = toLowerCase (trim e)\<rparr>))])"
    if h: "doc_eventId d = Some i \<and> doc_email d = Some e \<and>
      validator_emailRegex (toLowerCase (trim e))"
  proof -
    from h have "normalized_email e \<noteq> []" using validator_not_empty by (auto simp: n)
    with h show ?thesis
      using Booking_create_cases[of d i e events store]
        Booking_create_actions_cases[of d i e events store]
      by (simp add: n)
  qed
  have p0: "(\<exists>m. Booking_create events store d = Inl (ValidationError m)) \<and>
      Booking_create_actions events store d = []"
    if h: "doc_email d = Some e \<and> \<not> validator_emailRegex (toLowerCase (trim e))"
  proof (cases "doc_eventId d")
    case None
    then have "doc_eventId d = None \<or> doc_email d = None" by simp
    from Booking_create_run_missing[OF this, of events store] show ?thesis
      by (auto simp: Booking_create_def Booking_create_actions_def)
  next
    case (Some j)
    with h show ?thesis
      using Booking_create_cases[of d j e events store]
        Booking_create_actions_cases[of d j e events store]
      by (auto simp: n)
  qed
  have cases: "(\<exists>m. Booking_create events store d = Inl (ValidationError m)) \<or>
    (\<exists>j x. doc_eventId d = Some j \<and> doc_email d = Some x \<and>
       Booking_create_run events store d =
         (if \<not> Event_exists events j
          then (Inl (ReferenceError ''Cannot create booking: referenced event does not exist.''),
                [Event_exists_query j])
          else (Inr (insert_booking store \<lparr>eventId = j, email = normalized_email x\<rparr>),
                [Event_exists_query j,
                 Booking_insert (snd (insert_booking store
                   \<lparr>eventId = j, email = normalized_email x\<rparr>))])))"
  proof (cases "doc_eventId d = None \<or> doc_email d = None")
    case True
    from Booking_create_missing[OF this] show ?thesis by blast
  next
    case False
    then obtain j x where jx: "doc_eventId d = Some j" "doc_email d = Some x" by auto
    from Booking_create_run_cases[OF jx, of events store] jx show ?thesis
      by (auto simp: Booking_create_def)
  qed
  have p2: "\<exists>j. doc_eventId d = Some j \<and> \<not> Event_exists events j"
    if "Booking_create events store d = Inl (ReferenceError m)" for m
    using cases that by (auto simp: Booking_create_def split: if_splits)
  have p3: "store' = store @ [b] \<and> doc_eventId d = Some (eventId b) \<and>
      Event_exists events (eventId b) \<and>
      Booking_create_actions events store d =
        [Event_exists_query (eventId b), Booking_insert b]"
    if "Booking_create events store d = Inr (store', b)" for store' b
  proof -
    from cases that obtain j x where j: "doc_eventId d = Some j" "Event_exists events j"
      and i: "insert_booking store \<lparr>eventId = j, email = normalized_email x\<rparr> = (store', b)"
      and a: "Booking_create_actions events store d =
        [Event_exists_query j,
         Booking_insert (snd (insert_booking store \<lparr>eventId = j, email = normalized_email x\<rparr>))]"
      by (auto simp: Booking_create_def Booking_create_actions_def split: if_splits)
    from insert_booking_fields[OF i] j a i show ?thesis by simp
  qed
  have p4: "\<exists>err. Booking_create events store d = Inl err"
    if "doc_eventId d = Some i \<and> \<not> Event_exists events i"
    using cases that by (auto simp: Booking_create_def)
  from p1 p0 p2 p3 p4 show ?thesis by blast
qed

theorem booking_reference_check_witness:
  "doc_eventId \<lparr>doc_eventId = Some 1, doc_email = Some ''A@B.COM''\<rparr> = Some 1 \<and>
   doc_email \<lparr>doc_eventId = Some 1, doc_email = Some ''A@B.COM''\<rparr> = Some ''A@B.COM'' \<and>
   validator_emailRegex (toLowerCase (trim ''A@B.COM'')) \<and>
   Event_exists [sample_event] 1 \<and>
   Booking_create [sample_event] [] \<lparr>doc_eventId = Some 1, doc_email = Some ''A@B.COM''\<rparr> =
     Inr ([sample_booking], sample_booking) \<and>
   Booking_create_actions [sample_event] []
       \<lparr>doc_eventId = Some 1, doc_email = Some ''A@B.COM''\<rparr> =
     [Event_exists_query 1, Booking_insert sample_booking] \<and>
   \<not> Event_exists [] 1 \<and>
   Booking_create [] [] \<lparr>doc_eventId = Some 1, doc_email = Some ''A@B.COM''\<rparr> =
     Inl (ReferenceError ''Cannot create booking: referenced event does not exist.'') \<and>
   Booking_create_actions [] [] \<lparr>doc_eventId = Some 1, doc_email = Some ''A@B.COM''\<rparr> =
     [Event_exists_query 1] \<and>
   doc_email \<lparr>doc_eventId = Some 1, doc_email = Some ''not-an-email''\<rparr> =
     Some ''not-an-email'' \<and>
   \<not> validator_emailRegex (toLowerCase (trim ''not-an-email'')) \<and>
   (\<exists>m. Booking_create [sample_event] []
          \<lparr>doc_eventId = Some 1, doc_email = Some ''not-an-email''\<rparr> =
        Inl (ValidationError m)) \<and>
   Booking_create_actions [sample_event] []
       \<lparr>doc_eventId = Some 1, doc_email = Some ''not-an-email''\<rparr> = [] \<and>
   (\<exists>m. Booking_create [] [] \<lparr>doc_eventId = Some 1, doc_email = Some ''not-an-email''\<rparr> =
        Inl (ValidationError m)) \<and>
   Booking_create_actions [] [] \<lparr>doc_eventId = Some 1, doc_email = Some ''not-an-email''\<rparr> = []"
proof -
  let ?d = "\<lparr>doc_eventId = Some 1, doc_email = Some ''A@B.COM''\<rparr>"
  let ?bad = "\<lparr>doc_eventId = Some 1, doc_email = Some ''not-an-email''\<rparr>"
  have h1: "doc_eventId ?d = Some 1" by simp
  have h2: "doc_email ?d = Some ''A@B.COM''" by simp
  have h3: "validator_emailRegex (toLowerCase (trim ''A@B.COM''))" by code_simp
  have h4: "Event_exists [sample_event] 1" by code_simp
  have h5: "\<not> Event_exists [] 1" by code_simp
  have h6: "doc_email ?bad = Some ''not-an-email''" by simp
  have h7: "\<not> validator_emailRegex (toLowerCase (trim ''not-an-email''))" by code_simp
  have i: "insert_booking [] \<lparr>eventId = 1, email = toLowerCase (trim ''A@B.COM'')\<rparr> =
    ([sample_booking], sample_booking)" by code_simp
  from booking_reference_check[where d = ?d and i = 1 and e = "''A@B.COM''"
      and events = "[sample_event]" and store = "[]"] h1 h2 h3 h4
  have "Booking_create [sample_event] [] ?d =
      Inr (insert_booking [] \<lparr>eventId = 1, email = toLowerCase (trim ''A@B.COM'')\<rparr>) \<and>
    Booking_create_actions [sample_event] [] ?d =
      [Event_exists_query 1,
       Booking_insert (snd (insert_booking []
         \<lparr>eventId = 1, email = toLowerCase (trim ''A@B.COM'')\<rparr>))]"
    by blast
  with i have a: "Booking_create [sample_event] [] ?d = Inr ([sample_booking], sample_booking)"
    and a': "Booking_create_actions [sample_event] [] ?d =
      [Event_exists_query 1, Booking_insert sample_booking]"
    by simp_all
  from booking_reference_check[where d = ?d and i = 1 and e = "''A@B.COM''"
      and events = "[]" and store = "[]"] h1 h2 h3 h5
  have b: "Booking_create [] [] ?d =
     Inl (ReferenceError ''Cannot create booking: referenced event does not exist.'')"
    and b': "Booking_create_actions [] [] ?d = [Event_exists_query 1]"
    by blast+
  from booking_reference_check[where d = ?bad and e = "''not-an-email''"
      and events = "[sample_event]" and store = "[]"] h6 h7
  have c: "\<exists>m. Booking_create [sample_event] [] ?bad = Inl (ValidationError m)"
    and c': "Booking_create_actions [sample_event] [] ?bad = []"
    by blast+
  from booking_reference_check[where d = ?bad and e = "''not-an-email''"
      and events = "[]" and store = "[]"] h6 h7
  have d: "\<exists>m. Booking_create [] [] ?bad = Inl (ValidationError m)"
    and d': "Booking_create_actions [] [] ?bad = []"
    by blast+
  from h1 h2 h3 h4 a a' h5 b b' h6 h7 c c' d d' show ?thesis by blast
qed

end
